theory Spec2Isabelle
  imports Complex_Main "HOL-Library.Sublist"
begin

section \<open>Python values\<close>

text \<open>
  A Python float is either a finite number or one of the three special values.
  The finite payload is a real number: rounding is not modelled, only the
  classification that \<open>math.isnan\<close> and \<open>math.isinf\<close> observe.
\<close>

datatype pyfloat = Finite real | PosInf | NegInf | NaN

fun isnan :: "pyfloat \<Rightarrow> bool" where
  "isnan NaN = True"
| "isnan _ = False"

fun isinf :: "pyfloat \<Rightarrow> bool" where
  "isinf PosInf = True"
| "isinf NegInf = True"
| "isinf _ = False"

text \<open>
  The values a feature or segment map can hold (\<open>Dict[str, Any]\<close>): scalars,
  and the JSON containers. A dict is an association list in insertion order.
  \<open>PFloat\<close> is a value for which \<open>isinstance(val, float)\<close> holds (a Python
  float, a \<open>numpy.float64\<close>); \<open>POtherNumber\<close> is a number of any other
  type, such as \<open>numpy.float32\<close> or \<open>decimal.Decimal\<close>, which can be NaN or
  infinite as well.
\<close>

datatype pyval =
    PNone
  | PBool bool
  | PInt int
  | PFloat pyfloat
  | POtherNumber pyfloat
  | PStr string
  | PList "pyval list"
  | PDict "(string \<times> pyval) list"

type_synonym pydict = "(string \<times> pyval) list"

text \<open>A non-finite float somewhere inside a value, at any depth.\<close>

fun has_nonfinite :: "pyval \<Rightarrow> bool" where
  "has_nonfinite (PFloat f) = (isnan f \<or> isinf f)"
| "has_nonfinite (POtherNumber f) = (isnan f \<or> isinf f)"
| "has_nonfinite (PList vs) = (\<exists>v \<in> set vs. has_nonfinite v)"
| "has_nonfinite (PDict kvs) = (\<exists>v \<in> snd ` set kvs. has_nonfinite v)"
| "has_nonfinite _ = False"

text \<open>
  A value of type \<open>float\<close> that is NaN or infinite: what \<open>_sanitize\<close>
  replaces.
\<close>

fun nonfinite_float :: "pyval \<Rightarrow> bool" where
  "nonfinite_float (PFloat f) = (isnan f \<or> isinf f)"
| "nonfinite_float _ = False"

fun is_container :: "pyval \<Rightarrow> bool" where
  "is_container (PList _) = True"
| "is_container (PDict _) = True"
| "is_container _ = False"

text \<open>\<open>None\<close>, a bool, an int, a string or a value of type \<open>float\<close>.\<close>

fun is_plain :: "pyval \<Rightarrow> bool" where
  "is_plain (PList _) = False"
| "is_plain (PDict _) = False"
| "is_plain (POtherNumber _) = False"
| "is_plain _ = True"

section \<open>The ingestion client (app/driftwatch\_client.py)\<close>

subsection \<open>Constants\<close>

definition MAX_BUFFER :: nat where "MAX_BUFFER = 5000"
definition DEFAULT_BATCH_SIZE :: int where "DEFAULT_BATCH_SIZE = 50"
definition DEFAULT_FLUSH_SECONDS :: int where "DEFAULT_FLUSH_SECONDS = 5"
definition MAX_RETRIES :: nat where "MAX_RETRIES = 5"

subsection \<open>Events and the bounded deque\<close>

text \<open>
  The event tuple built by \<open>log_inference\<close>, fields in the tuple's order.
  \<open>Json(...)\<close> only wraps the dict for the database adapter.
\<close>

record event =
  ts :: int
  model_id :: string
  model_version :: string
  request_id :: "string option"
  pred_type :: string
  latency_ms :: "int option"
  features_json :: pydict
  y_pred_num :: pyval
  y_pred_text :: "string option"
  segment_json :: pydict

text \<open>The arguments of one \<open>log_inference\<close> call.\<close>

record inference =
  in_model_id :: string
  in_model_version :: string
  in_ts :: int
  in_pred_type :: string
  in_y_pred_num :: pyval
  in_y_pred_text :: "string option"
  in_latency_ms :: "int option"
  in_features_json :: pydict
  in_segment_json :: pydict
  in_request_id :: "string option"

text \<open>
  \<open>collections.deque(maxlen=n)\<close>: appending to a full deque discards the
  element at the left end; a deque of maximal length 0 stays empty.
\<close>

record 'a deque =
  items :: "'a list"
  maxlen :: nat

definition deque_append :: "'a deque \<Rightarrow> 'a \<Rightarrow> 'a deque" where
  "deque_append d x =
     (if maxlen d = 0 then d
      else if length (items d) = maxlen d then d\<lparr>items := tl (items d) @ [x]\<rparr>
      else d\<lparr>items := items d @ [x]\<rparr>)"

subsection \<open>Client state\<close>

record client =
  enabled :: bool
  dsn :: "string option"
  batch_size :: int
  flush_seconds :: int
  buffer :: "event deque"
  last_flush_time :: real
  dropped_events :: int
  flush_failures :: int
  insert_success :: int

text \<open>
  What the client does to the outside world, in order: the call of \<open>flush\<close>
  made by \<open>log_inference\<close>, one write attempt of a batch (connect, insert,
  commit), one \<open>time.sleep\<close>.
\<close>

datatype io = CallFlush | WriteAttempt "event list" | Sleep real

text \<open>
  How one write attempt ends: it commits, it raises \<open>psycopg2.Error\<close> or
  \<open>OSError\<close> (which the retry loop catches), or it raises anything else
  (which the loop does not catch).
\<close>

datatype write_outcome = Committed | StorageError | OtherException

text \<open>
  The surroundings of one call: the reading of \<open>time.time()\<close> in the flush
  check, the reading after a commit, and the outcome of each write attempt
  by its attempt number.
\<close>

record world =
  clock_check :: real
  clock_commit :: real
  attempt :: "nat \<Rightarrow> write_outcome"

datatype completion = Returned | Raised

subsection \<open>Construction\<close>

text \<open>\<open>str.lower\<close> on the ASCII letters.\<close>

definition char_lower :: "char \<Rightarrow> char" where
  "char_lower c =
     (case map_of (zip ''ABCDEFGHIJKLMNOPQRSTUVWXYZ'' ''abcdefghijklmnopqrstuvwxyz'') c of
        Some l \<Rightarrow> l
      | None \<Rightarrow> c)"

definition lower :: "string \<Rightarrow> string" where
  "lower s = map char_lower s"

text \<open>\<open>os.getenv(name, default)\<close> for a string default.\<close>

definition getenv :: "(string \<rightharpoonup> string) \<Rightarrow> string \<Rightarrow> string \<Rightarrow> string" where
  "getenv env name dflt = (case env name of Some v \<Rightarrow> v | None \<Rightarrow> dflt)"

text \<open>
  \<open>int(os.getenv(name, default))\<close> for an integer default. The builtin
  \<open>int\<close> on a string is the parameter \<open>py_int\<close>; \<open>None\<close> is its
  \<open>ValueError\<close>.
\<close>

definition getenv_int ::
  "(string \<Rightarrow> int option) \<Rightarrow> (string \<rightharpoonup> string) \<Rightarrow> string \<Rightarrow> int \<Rightarrow> int option" where
  "getenv_int py_int env name dflt =
     (case env name of Some v \<Rightarrow> py_int v | None \<Rightarrow> Some dflt)"

text \<open>
  \<open>DriftWatchClient.__init__\<close>. Both sizes are read in one \<open>try\<close>: a
  \<open>ValueError\<close> from either resets both to their defaults. \<open>not self.dsn\<close>
  holds for a missing and for an empty connection string.
\<close>

definition init :: "(string \<Rightarrow> int option) \<Rightarrow> (string \<rightharpoonup> string) \<Rightarrow> real \<Rightarrow> client" where
  "init py_int env now =
     (let enabled0 = (lower (getenv env ''DRIFTWATCH_ENABLED'' ''true'') = ''true'');
          dsn0 = env ''DRIFTWATCH_DATABASE_URL'';
          sizes =
            (case getenv_int py_int env ''DRIFTWATCH_BATCH_SIZE'' DEFAULT_BATCH_SIZE of
               None \<Rightarrow> (DEFAULT_BATCH_SIZE, DEFAULT_FLUSH_SECONDS)
             | Some b \<Rightarrow>
                 (case getenv_int py_int env ''DRIFTWATCH_FLUSH_SECONDS'' DEFAULT_FLUSH_SECONDS of
                    None \<Rightarrow> (DEFAULT_BATCH_SIZE, DEFAULT_FLUSH_SECONDS)
                  | Some f \<Rightarrow> (b, f)));
          c = \<lparr> enabled = enabled0,
                dsn = dsn0,
                batch_size = fst sizes,
                flush_seconds = snd sizes,
                buffer = \<lparr> items = [], maxlen = MAX_BUFFER \<rparr>,
                last_flush_time = now,
                dropped_events = 0,
                flush_failures = 0,
                insert_success = 0 \<rparr>
      in if enabled c \<and> (dsn c = None \<or> dsn c = Some [])
         then c\<lparr>enabled := False\<rparr>
         else c)"

subsection \<open>Sanitizing and enqueueing\<close>

text \<open>\<open>DriftWatchClient._sanitize\<close>.\<close>

fun sanitize :: "pyval \<Rightarrow> pyval" where
  "sanitize PNone = PNone"
| "sanitize (PFloat f) = (if isnan f \<or> isinf f then PNone else PFloat f)"
| "sanitize v = v"

text \<open>The dict comprehension \<open>{k: self._sanitize(v) for k, v in d.items()}\<close>.\<close>

definition sanitize_dict :: "pydict \<Rightarrow> pydict" where
  "sanitize_dict d = map (\<lambda>(k, v). (k, sanitize v)) d"

text \<open>The event tuple of \<open>log_inference\<close>.\<close>

definition make_event :: "inference \<Rightarrow> event" where
  "make_event a =
     (let clean_features = sanitize_dict (in_features_json a);
          clean_segment = sanitize_dict (in_segment_json a)
      in \<lparr> ts = in_ts a,
           model_id = in_model_id a,
           model_version = in_model_version a,
           request_id = in_request_id a,
           pred_type = in_pred_type a,
           latency_ms = in_latency_ms a,
           features_json = clean_features,
           y_pred_num = sanitize (in_y_pred_num a),
           y_pred_text = in_y_pred_text a,
           segment_json = clean_segment \<rparr>)"

text \<open>
  The buffering step of \<open>log_inference\<close>: count a drop when the buffer
  holds \<open>MAX_BUFFER\<close> events, then append.
\<close>

definition enqueue :: "event \<Rightarrow> client \<Rightarrow> client" where
  "enqueue ev c =
     (let c1 = (if length (items (buffer c)) = MAX_BUFFER
                then c\<lparr>dropped_events := dropped_events c + 1\<rparr>
                else c)
      in c1\<lparr>buffer := deque_append (buffer c1) ev\<rparr>)"

subsection \<open>Flushing\<close>

text \<open>
  The loop \<open>while self.buffer and len(batch) < self.batch_size\<close>: moves
  events from the left end of the buffer to the end of the batch. Returns
  the batch and what is left of the buffer.
\<close>

fun pop_batch :: "event list \<Rightarrow> event list \<Rightarrow> int \<Rightarrow> event list \<times> event list" where
  "pop_batch [] batch n = (batch, [])"
| "pop_batch (e # es) batch n =
     (if int (length batch) < n then pop_batch es (batch @ [e]) n else (batch, e # es))"

datatype loop_exit = Succeeded | Exhausted | Propagated

text \<open>
  The retry loop \<open>for attempt in range(MAX_RETRIES)\<close>, over the attempt
  numbers still to run, with the current \<open>wait\<close>. A caught failure sleeps
  and doubles \<open>wait\<close> unless it was the last attempt.
\<close>

fun retry :: "(nat \<Rightarrow> write_outcome) \<Rightarrow> event list \<Rightarrow> nat list \<Rightarrow> real \<Rightarrow> loop_exit \<times> io list" where
  "retry db batch [] wait = (Exhausted, [])"
| "retry db batch (a # as) wait =
     (case db a of
        Committed \<Rightarrow> (Succeeded, [WriteAttempt batch])
      | OtherException \<Rightarrow> (Propagated, [WriteAttempt batch])
      | StorageError \<Rightarrow>
          (if a + 1 < MAX_RETRIES
           then (let (r, tr) = retry db batch as (wait * 2)
                 in (r, WriteAttempt batch # Sleep wait # tr))
           else (let (r, tr) = retry db batch as wait
                 in (r, WriteAttempt batch # tr))))"

text \<open>\<open>DriftWatchClient.flush\<close>.\<close>

definition flush :: "world \<Rightarrow> client \<Rightarrow> client \<times> io list \<times> completion" where
  "flush w c =
     (if \<not> enabled c \<or> items (buffer c) = [] then (c, [], Returned)
      else
        (let (batch, rest) = pop_batch (items (buffer c)) [] (batch_size c);
             c1 = c\<lparr>buffer := (buffer c)\<lparr>items := rest\<rparr>\<rparr>
         in if batch = [] then (c1, [], Returned)
            else
              (case retry (attempt w) batch [0..<MAX_RETRIES] (1/2) of
                 (Succeeded, tr) \<Rightarrow>
                   (c1\<lparr>insert_success := insert_success c1 + int (length batch),
                       last_flush_time := clock_commit w\<rparr>, tr, Returned)
               | (Exhausted, tr) \<Rightarrow>
                   (c1\<lparr>flush_failures := flush_failures c1 + 1\<rparr>, tr, Returned)
               | (Propagated, tr) \<Rightarrow> (c1, tr, Raised))))"

text \<open>The flush check at the end of \<open>log_inference\<close>.\<close>

definition flush_due :: "world \<Rightarrow> client \<Rightarrow> bool" where
  "flush_due w c \<longleftrightarrow>
     int (length (items (buffer c))) \<ge> batch_size c
     \<or> clock_check w - last_flush_time c \<ge> real_of_int (flush_seconds c)"

text \<open>\<open>DriftWatchClient.log_inference\<close>.\<close>

definition log_inference :: "world \<Rightarrow> inference \<Rightarrow> client \<Rightarrow> client \<times> io list \<times> completion" where
  "log_inference w a c =
     (if \<not> enabled c then (c, [], Returned)
      else
        (let c1 = enqueue (make_event a) c
         in if flush_due w c1
            then (let (c2, tr, r) = flush w c1 in (c2, CallFlush # tr, r))
            else (c1, [], Returned)))"

text \<open>
  A sequence of \<open>log_inference\<close> calls on one client, each in its own
  surroundings. A call that raises leaves the client as it was at the raise,
  and the caller goes on with the next call.
\<close>

fun log_all :: "(world \<times> inference) list \<Rightarrow> client \<Rightarrow> client \<times> io list" where
  "log_all [] c = (c, [])"
| "log_all ((w, a) # calls) c =
     (let (c1, tr1, r) = log_inference w a c;
          (c2, tr2) = log_all calls c1
      in (c2, tr1 @ tr2))"

text \<open>
  The enqueue as the specification words it: a buffer at capacity loses its
  oldest event, then the new event is appended.
\<close>

definition spec_enqueue :: "'a list \<Rightarrow> nat \<Rightarrow> 'a \<Rightarrow> 'a list" where
  "spec_enqueue xs capacity x = (if length xs = capacity then tl xs else xs) @ [x]"

section \<open>Example inputs\<close>

text \<open>Concrete clients, calls and surroundings at which the theorems are instantiated.\<close>

definition demo_env :: "string \<rightharpoonup> string" where
  "demo_env = [''DRIFTWATCH_DATABASE_URL'' \<mapsto> ''postgresql://db/driftwatch'']"

definition demo_client :: client where
  "demo_client = init (\<lambda>s. None) demo_env 0"

definition demo_inference :: inference where
  "demo_inference =
     \<lparr> in_model_id = ''m'', in_model_version = ''v1'', in_ts = 0,
       in_pred_type = ''regression'', in_y_pred_num = PFloat NaN,
       in_y_pred_text = None, in_latency_ms = Some 10,
       in_features_json = [(''sigma20_pct'', PFloat (Finite 0.42)), (''nan_check'', PFloat NaN)],
       in_segment_json = [(''env'', PStr ''smoke_test'')],
       in_request_id = Some ''smoke-0'' \<rparr>"

definition demo_nested :: inference where
  "demo_nested = demo_inference\<lparr>in_features_json := [(''window'', PList [PFloat NaN])]\<rparr>"

definition demo_other :: inference where
  "demo_other = demo_inference\<lparr>in_features_json := [(''score'', POtherNumber NaN)]\<rparr>"

definition demo_finite :: inference where
  "demo_finite = demo_inference\<lparr>in_y_pred_num := PFloat (Finite 0.5)\<rparr>"

definition failing_world :: world where
  "failing_world = \<lparr> clock_check = 1, clock_commit = 2, attempt = (\<lambda>n. StorageError) \<rparr>"

definition full_client :: client where
  "full_client = demo_client\<lparr>buffer := \<lparr> items = replicate 5000 (make_event demo_inference), maxlen = MAX_BUFFER \<rparr>\<rparr>"

definition idle_world :: world where
  "idle_world = \<lparr> clock_check = 1, clock_commit = 2, attempt = (\<lambda>n. Committed) \<rparr>"

definition late_world :: world where
  "late_world = \<lparr> clock_check = 7, clock_commit = 8, attempt = (\<lambda>n. Committed) \<rparr>"

definition unset_env :: "string \<rightharpoonup> string" where
  "unset_env = [''DRIFTWATCH_ENABLED'' \<mapsto> ''TRUE'', ''DRIFTWATCH_BATCH_SIZE'' \<mapsto> ''10'']"

section \<open>The metrics job (ml\_observability\_mvp/jobs/compute\_daily\_metrics.py)\<close>

text \<open>The exceptions that can leave the functions of the job.\<close>

datatype py_error = ValueError | TypeError | IndexError | OtherError

subsection \<open>Population Stability Index\<close>

text \<open>
  \<open>bins[0] = -np.inf; bins[-1] = np.inf\<close>, in this order, on the array of
  edges that \<open>qcut\<close> returned. Indexing an empty array raises.
\<close>

definition clamp_bins :: "real list \<Rightarrow> py_error + pyfloat list" where
  "clamp_bins bins =
     (if bins = [] then Inl IndexError
      else Inr (((map Finite bins)[0 := NegInf])[length bins - 1 := PosInf]))"

text \<open>\<open>.replace(0, 0.0001)\<close> on one proportion.\<close>

definition replace_zero :: "real \<Rightarrow> real" where
  "replace_zero p = (if p = 0 then 1 / 10000 else p)"

text \<open>\<open>(counts / len(sample)).replace(0, 0.0001)\<close>.\<close>

definition percents :: "nat list \<Rightarrow> nat \<Rightarrow> real list" where
  "percents counts n = map (\<lambda>c. replace_zero (real c / real n)) counts"

text \<open>
  \<open>compute_psi\<close>. The two calls into pandas are parameters: \<open>qcut\<close> stands
  for \<open>pd.qcut(expected, q=buckets, retbins=True, duplicates='drop')\<close> and gives
  the edges or the exception raised; \<open>cut_counts\<close> stands for
  \<open>pd.cut(sample, bins=bins).value_counts(sort=False)\<close> and gives the count of
  each bin in the order of the bins, or the exception raised. Only a
  \<open>ValueError\<close> of \<open>qcut\<close> is caught. Samples hold finite numbers, and
  arithmetic is that of the real numbers.
\<close>

definition compute_psi ::
  "(real list \<Rightarrow> int \<Rightarrow> py_error + real list) \<Rightarrow>
   (pyfloat list \<Rightarrow> real list \<Rightarrow> py_error + nat list) \<Rightarrow>
   real list \<Rightarrow> real list \<Rightarrow> int \<Rightarrow> py_error + real" where
  "compute_psi qcut cut_counts expected actual buckets =
     (if length expected = 0 \<or> length actual = 0 then Inr 0
      else
        (case qcut expected buckets of
           Inl ValueError \<Rightarrow> Inr 0
         | Inl e \<Rightarrow> Inl e
         | Inr bins0 \<Rightarrow>
             (case clamp_bins bins0 of
                Inl e \<Rightarrow> Inl e
              | Inr bins \<Rightarrow>
                  (case cut_counts bins expected of
                     Inl e \<Rightarrow> Inl e
                   | Inr expected_counts \<Rightarrow>
                       (case cut_counts bins actual of
                          Inl e \<Rightarrow> Inl e
                        | Inr actual_counts \<Rightarrow>
                            (let expected_percents = percents expected_counts (length expected);
                                 actual_percents = percents actual_counts (length actual);
                                 psi_values = map (\<lambda>(a, e). (a - e) * ln (a / e))
                                                  (zip actual_percents expected_percents)
                             in Inr (sum_list psi_values)))))))"

text \<open>
  An instance of \<open>cut_counts\<close> for the examples: the bins are the intervals
  between consecutive edges, open on the left and closed on the right.
\<close>

fun left_open :: "pyfloat \<Rightarrow> real \<Rightarrow> bool" where
  "left_open NegInf x = True"
| "left_open (Finite b) x = (b < x)"
| "left_open _ x = False"

fun right_closed :: "real \<Rightarrow> pyfloat \<Rightarrow> bool" where
  "right_closed x PosInf = True"
| "right_closed x (Finite b) = (x \<le> b)"
| "right_closed x _ = False"

definition interval_counts :: "pyfloat list \<Rightarrow> real list \<Rightarrow> py_error + nat list" where
  "interval_counts bins xs =
     Inr (map (\<lambda>(lo, hi). length (filter (\<lambda>x. left_open lo x \<and> right_closed x hi) xs)) (zip bins (tl bins)))"

text \<open>
  An instance of \<open>qcut\<close> for the examples, following pandas on a non-empty
  sample and \<open>q\<close> at least 1: the edges are the quantiles of the sample at
  \<open>0, 1/q, ..., 1\<close>, each by linear interpolation between the two nearest
  values of the sorted sample; with \<open>duplicates='drop'\<close> repeated edges are
  removed unless there are just two edges. It raises nothing.
\<close>

definition quantile :: "real list \<Rightarrow> real \<Rightarrow> real" where
  "quantile xs p =
     (let s = sort xs;
          h = p * real (length xs - 1);
          lo = nat \<lfloor>h\<rfloor>;
          hi = nat \<lceil>h\<rceil>
      in s ! lo + (h - real lo) * (s ! hi - s ! lo))"

definition quantile_edges :: "real list \<Rightarrow> int \<Rightarrow> py_error + real list" where
  "quantile_edges xs q =
     (let bins = map (\<lambda>i. quantile xs (real i / real_of_int q)) [0..<nat q + 1]
      in Inr (if \<not> distinct bins \<and> length bins \<noteq> 2 then remdups bins else bins))"

text \<open>
  An instance of \<open>qcut\<close> that raises the \<open>ValueError\<close> which the
  \<open>except\<close> clause of \<open>compute_psi\<close> is written for.
\<close>

definition raising_qcut :: "real list \<Rightarrow> int \<Rightarrow> py_error + real list" where
  "raising_qcut xs q = Inl ValueError"

subsection \<open>Performance metrics\<close>

text \<open>
  One row of \<open>df_perf\<close>: an inference joined to its label. A SQL \<open>NULL\<close> in
  a numeric column is read as NaN; it is \<open>None\<close> here.
\<close>

record perf_row =
  row_y_pred_num :: "real option"
  row_y_true_num :: "real option"
  row_pred_type :: string

text \<open>
  A float cast to a 64-bit integer: the fractional part is cut off, and a value
  that does not fit comes out as the smallest 64-bit integer.
\<close>

definition trunc :: "real \<Rightarrow> int" where
  "trunc x = (if 0 \<le> x then \<lfloor>x\<rfloor> else \<lceil>x\<rceil>)"

definition int64_cast :: "real \<Rightarrow> int" where
  "int64_cast x =
     (let t = trunc x
      in if - (2 ^ 63) \<le> t \<and> t < 2 ^ 63 then t else - (2 ^ 63))"

text \<open>\<open>(df_perf['y_pred_num'] >= 0.5).astype(int)\<close>: NaN compares false.\<close>

definition y_pred_binary :: "perf_row list \<Rightarrow> int list" where
  "y_pred_binary rows =
     map (\<lambda>r. case row_y_pred_num r of None \<Rightarrow> 0 | Some p \<Rightarrow> if p \<ge> 1/2 then 1 else 0) rows"

text \<open>
  \<open>(df_perf['y_true_num']).astype(int)\<close>. A column that holds a NaN cannot
  be cast and raises a \<open>ValueError\<close>; a column of nothing but \<open>NULL\<close> is
  read as a column of \<open>None\<close> objects, and casting it raises a
  \<open>TypeError\<close>.
\<close>

definition astype_int :: "real option list \<Rightarrow> py_error + int list" where
  "astype_int col =
     (if col \<noteq> [] \<and> list_all (\<lambda>x. x = None) col then Inl TypeError
      else if None \<in> set col then Inl ValueError
      else Inr (map (\<lambda>x. int64_cast (the x)) col))"

text \<open>\<open>((y_pred_binary == p) & (y_true_binary == t)).sum()\<close>.\<close>

definition count_both :: "int \<Rightarrow> int \<Rightarrow> int list \<Rightarrow> int list \<Rightarrow> nat" where
  "count_both p t preds truths = length (filter (\<lambda>(a, b). a = p \<and> b = t) (zip preds truths))"

text \<open>Precision, recall and F1 from the three counts.\<close>

definition f1_from_counts :: "nat \<Rightarrow> nat \<Rightarrow> nat \<Rightarrow> real" where
  "f1_from_counts tp fp fn =
     (let precision = (if tp + fp > 0 then real tp / real (tp + fp) else 0);
          recall = (if tp + fn > 0 then real tp / real (tp + fn) else 0)
      in if precision + recall > 0
         then 2 * (precision * recall) / (precision + recall)
         else 0)"

text \<open>The branch \<open>pred_type == 'classification'\<close>.\<close>

definition classification_f1 :: "perf_row list \<Rightarrow> py_error + real" where
  "classification_f1 df_perf =
     (let y_pred = y_pred_binary df_perf
      in case astype_int (map row_y_true_num df_perf) of
           Inl e \<Rightarrow> Inl e
         | Inr y_true \<Rightarrow>
             (let tp = count_both 1 1 y_pred y_true;
                  fp = count_both 1 0 y_pred y_true;
                  fn = count_both 0 1 y_pred y_true
              in Inr (f1_from_counts tp fp fn)))"

text \<open>
  The branch \<open>pred_type == 'regression'\<close>: the mean of the absolute
  differences, which skips NaN and is NaN when nothing is left.
\<close>

definition mae :: "perf_row list \<Rightarrow> pyfloat" where
  "mae df_perf =
     (let diffs = concat (map (\<lambda>r. case (row_y_true_num r, row_y_pred_num r) of
                                       (Some t, Some p) \<Rightarrow> [\<bar>t - p\<bar>]
                                     | _ \<Rightarrow> []) df_perf)
      in if diffs = [] then NaN else Finite (sum_list diffs / real (length diffs)))"

text \<open>
  Section D of \<open>process_model_metrics\<close>: the metrics appended for the joined
  rows, or the exception raised.
\<close>

definition performance_metrics :: "perf_row list \<Rightarrow> py_error + (string \<times> pyfloat) list" where
  "performance_metrics df_perf =
     (if length df_perf \<ge> 200
      then (case df_perf of
              [] \<Rightarrow> Inl IndexError
            | r # _ \<Rightarrow>
                if row_pred_type r = ''regression'' then Inr [(''mae'', mae df_perf)]
                else if row_pred_type r = ''classification''
                then (case classification_f1 df_perf of
                        Inl e \<Rightarrow> Inl e
                      | Inr f1 \<Rightarrow> Inr [(''f1'', Finite f1)])
                else Inr [])
      else Inr [])"

text \<open>
  The F1 score as the specification words it: a row is predicted positive when
  its probability is at least 0.5, it is positive when its truth cast to an
  integer is 1 and negative when that is 0; precision, recall and F1 are 0 when
  their denominator is 0.
\<close>

definition predicted_positive :: "perf_row \<Rightarrow> bool" where
  "predicted_positive r = (case row_y_pred_num r of None \<Rightarrow> False | Some p \<Rightarrow> p \<ge> 1/2)"

definition true_class :: "perf_row \<Rightarrow> int option" where
  "true_class r = map_option int64_cast (row_y_true_num r)"

definition spec_ratio :: "real \<Rightarrow> real \<Rightarrow> real" where
  "spec_ratio num den = (if den = 0 then 0 else num / den)"

definition spec_f1 :: "perf_row list \<Rightarrow> real" where
  "spec_f1 rows =
     (let tp = real (length (filter (\<lambda>r. predicted_positive r \<and> true_class r = Some 1) rows));
          fp = real (length (filter (\<lambda>r. predicted_positive r \<and> true_class r = Some 0) rows));
          fn = real (length (filter (\<lambda>r. \<not> predicted_positive r \<and> true_class r = Some 1) rows));
          precision = spec_ratio tp (tp + fp);
          recall = spec_ratio tp (tp + fn)
      in spec_ratio (2 * precision * recall) (precision + recall))"

text \<open>The four rows of the specification's example, and fifty copies of them.\<close>

definition example_rows :: "perf_row list" where
  "example_rows =
     [\<lparr> row_y_pred_num = Some 0.9, row_y_true_num = Some 1, row_pred_type = ''classification'' \<rparr>,
      \<lparr> row_y_pred_num = Some 0.1, row_y_true_num = Some 0, row_pred_type = ''classification'' \<rparr>,
      \<lparr> row_y_pred_num = Some 0.6, row_y_true_num = Some 1, row_pred_type = ''classification'' \<rparr>,
      \<lparr> row_y_pred_num = Some 0.4, row_y_true_num = Some 0, row_pred_type = ''classification'' \<rparr>]"

definition many_rows :: "perf_row list" where
  "many_rows = concat (replicate 50 example_rows)"

text \<open>
  The same rows after one more row whose label carries no numeric truth, as
  written by \<open>log_label\<close> with \<open>y_true_text\<close> only.
\<close>

definition null_truth_rows :: "perf_row list" where
  "null_truth_rows =
     \<lparr> row_y_pred_num = Some 0.9, row_y_true_num = None, row_pred_type = ''classification'' \<rparr>
       # many_rows"

section \<open>Properties of the ingestion client\<close>

subsection \<open>Draining and enqueueing\<close>

lemma pop_batch_take_drop:
  "pop_batch xs batch n =
     (batch @ take (nat (n - int (length batch))) xs, drop (nat (n - int (length batch))) xs)"
proof (induction xs arbitrary: batch)
  case Nil
  show ?case by simp
next
  case (Cons e es)
  show ?case
  proof (cases "int (length batch) < n")
    case True
    then have "nat (n - int (length batch)) = Suc (nat (n - int (length (batch @ [e]))))"
      by simp
    with True Cons show ?thesis by simp
  next
    case False
    then show ?thesis by simp
  qed
qed

lemma pop_batch_start:
  "pop_batch xs [] n = (take (nat n) xs, drop (nat n) xs)"
  by (simp add: pop_batch_take_drop)

lemma retry_cases:
  "fst (retry db batch as wait) = Succeeded \<or> fst (retry db batch as wait) = Exhausted
   \<or> fst (retry db batch as wait) = Propagated"
  by (cases "fst (retry db batch as wait)") auto

lemma flush_buffer:
  "\<exists>k. buffer (fst (flush w c)) = (buffer c)\<lparr>items := drop k (items (buffer c))\<rparr>"
proof (cases "\<not> enabled c \<or> items (buffer c) = []")
  case True
  then have "buffer (fst (flush w c)) = (buffer c)\<lparr>items := drop 0 (items (buffer c))\<rparr>"
    by (simp add: flush_def)
  then show ?thesis by blast
next
  case False
  then have "buffer (fst (flush w c)) = (buffer c)\<lparr>items := drop (nat (batch_size c)) (items (buffer c))\<rparr>"
    by (simp add: flush_def Let_def pop_batch_start split: prod.splits loop_exit.splits)
  then show ?thesis by blast
qed

lemma flush_keeps:
  "enabled (fst (flush w c)) = enabled c"
  "batch_size (fst (flush w c)) = batch_size c"
  "dropped_events (fst (flush w c)) = dropped_events c"
  by (simp_all add: flush_def Let_def pop_batch_start split: prod.splits loop_exit.splits)

lemma flush_maxlen: "maxlen (buffer (fst (flush w c))) = maxlen (buffer c)"
  using flush_buffer [of w c] by auto

lemma flush_suffix: "suffix (items (buffer (fst (flush w c)))) (items (buffer c))"
  using flush_buffer [of w c] by (auto simp: suffix_drop)

lemma flush_length: "length (items (buffer (fst (flush w c)))) \<le> length (items (buffer c))"
  using flush_buffer [of w c] by auto

lemma enqueue_items:
  assumes "maxlen (buffer c) = MAX_BUFFER"
  shows "items (buffer (enqueue ev c)) =
           (if length (items (buffer c)) = MAX_BUFFER then tl (items (buffer c)) @ [ev]
            else items (buffer c) @ [ev])"
  using assms by (simp add: enqueue_def deque_append_def Let_def MAX_BUFFER_def)

lemma enqueue_dropped:
  "dropped_events (enqueue ev c) =
     (if length (items (buffer c)) = MAX_BUFFER then dropped_events c + 1 else dropped_events c)"
  by (simp add: enqueue_def Let_def)

lemma enqueue_keeps:
  "enabled (enqueue ev c) = enabled c"
  "batch_size (enqueue ev c) = batch_size c"
  "maxlen (buffer (enqueue ev c)) = maxlen (buffer c)"
  by (simp_all add: enqueue_def deque_append_def Let_def)

lemma enqueue_length:
  assumes "maxlen (buffer c) = MAX_BUFFER" "length (items (buffer c)) \<le> MAX_BUFFER"
  shows "length (items (buffer (enqueue ev c))) \<le> MAX_BUFFER"
  using assms by (auto simp: enqueue_items MAX_BUFFER_def)

lemma enqueue_suffix:
  assumes "maxlen (buffer c) = MAX_BUFFER"
  shows "suffix (items (buffer (enqueue ev c))) (items (buffer c) @ [ev])"
proof (cases "items (buffer c)")
  case Nil
  then show ?thesis using assms by (simp add: enqueue_items)
next
  case (Cons x xs)
  then show ?thesis using assms by (simp add: enqueue_items suffix_Cons)
qed

lemma fst_log_inference:
  "fst (log_inference w a c) =
     (if \<not> enabled c then c
      else if flush_due w (enqueue (make_event a) c) then fst (flush w (enqueue (make_event a) c))
      else enqueue (make_event a) c)"
  by (simp add: log_inference_def Let_def case_prod_beta)

lemma log_inference_buffer:
  assumes "maxlen (buffer c) = MAX_BUFFER" "length (items (buffer c)) \<le> MAX_BUFFER"
  shows "maxlen (buffer (fst (log_inference w a c))) = MAX_BUFFER"
    and "length (items (buffer (fst (log_inference w a c)))) \<le> MAX_BUFFER"
    and "enabled (fst (log_inference w a c)) = enabled c"
proof -
  let ?c1 = "enqueue (make_event a) c"
  have m: "maxlen (buffer ?c1) = MAX_BUFFER" using assms by (simp add: enqueue_keeps)
  have l: "length (items (buffer ?c1)) \<le> MAX_BUFFER" using assms by (rule enqueue_length)
  show "maxlen (buffer (fst (log_inference w a c))) = MAX_BUFFER"
    using assms m flush_maxlen [of w ?c1]
    by (simp add: fst_log_inference)
  show "length (items (buffer (fst (log_inference w a c)))) \<le> MAX_BUFFER"
    using assms l flush_length [of w ?c1]
    by (simp add: fst_log_inference)
  show "enabled (fst (log_inference w a c)) = enabled c"
    using flush_keeps(1) [of w ?c1]
    by (simp add: fst_log_inference enqueue_keeps)
qed

lemma log_inference_suffix:
  assumes "enabled c" "maxlen (buffer c) = MAX_BUFFER"
  shows "suffix (items (buffer (fst (log_inference w a c)))) (items (buffer c) @ [make_event a])"
proof -
  let ?c1 = "enqueue (make_event a) c"
  have s1: "suffix (items (buffer ?c1)) (items (buffer c) @ [make_event a])"
    using assms(2) by (rule enqueue_suffix)
  have s2: "suffix (items (buffer (fst (flush w ?c1)))) (items (buffer ?c1))"
    by (rule flush_suffix)
  have "fst (log_inference w a c) = ?c1 \<or> fst (log_inference w a c) = fst (flush w ?c1)"
    using assms(1) by (simp add: fst_log_inference)
  then show ?thesis
  proof
    assume "fst (log_inference w a c) = ?c1"
    with s1 show ?thesis by simp
  next
    assume "fst (log_inference w a c) = fst (flush w ?c1)"
    with suffix_order.trans [OF s2 s1] show ?thesis by simp
  qed
qed

lemma log_all_invariant:
  assumes "enabled c" "maxlen (buffer c) = MAX_BUFFER" "length (items (buffer c)) \<le> MAX_BUFFER"
  shows "length (items (buffer (fst (log_all calls c)))) \<le> MAX_BUFFER
       \<and> suffix (items (buffer (fst (log_all calls c))))
                 (items (buffer c) @ map (\<lambda>(w, a). make_event a) calls)"
  using assms
proof (induction calls arbitrary: c)
  case Nil
  then show ?case by simp
next
  case (Cons call calls)
  obtain w a where call: "call = (w, a)" by (cases call)
  let ?c1 = "fst (log_inference w a c)"
  have e: "enabled ?c1" and m: "maxlen (buffer ?c1) = MAX_BUFFER"
    and l: "length (items (buffer ?c1)) \<le> MAX_BUFFER"
    using Cons.prems log_inference_buffer [of c w a] by simp_all
  have step: "fst (log_all (call # calls) c) = fst (log_all calls ?c1)"
    by (simp add: call case_prod_beta)
  have s1: "suffix (items (buffer ?c1)) (items (buffer c) @ [make_event a])"
    using Cons.prems(1,2) by (rule log_inference_suffix)
  from Cons.IH [OF e m l]
  have ih: "length (items (buffer (fst (log_all calls ?c1)))) \<le> MAX_BUFFER"
    and s2: "suffix (items (buffer (fst (log_all calls ?c1))))
                 (items (buffer ?c1) @ map (\<lambda>(w, a). make_event a) calls)"
    by simp_all
  from s1 have "suffix (items (buffer ?c1) @ map (\<lambda>(w, a). make_event a) calls)
                  ((items (buffer c) @ [make_event a]) @ map (\<lambda>(w, a). make_event a) calls)"
    by (simp only: same_suffix_suffix)
  with s2 have "suffix (items (buffer (fst (log_all calls ?c1))))
                  ((items (buffer c) @ [make_event a]) @ map (\<lambda>(w, a). make_event a) calls)"
    by (rule suffix_order.trans)
  then have "suffix (items (buffer (fst (log_all (call # calls) c))))
                  (items (buffer c) @ map (\<lambda>(w, a). make_event a) (call # calls))"
    using step by (simp add: call)
  with ih step show ?case by simp
qed

lemma demo_client_eq:
  "demo_client = \<lparr> enabled = True, dsn = Some ''postgresql://db/driftwatch'', batch_size = 50,
      flush_seconds = 5, buffer = \<lparr> items = [], maxlen = MAX_BUFFER \<rparr>, last_flush_time = 0,
      dropped_events = 0, flush_failures = 0, insert_success = 0 \<rparr>"
  by (simp add: demo_client_def demo_env_def init_def getenv_def getenv_int_def lower_def
      char_lower_def DEFAULT_BATCH_SIZE_def DEFAULT_FLUSH_SECONDS_def)

lemma retry_all_fail:
  assumes "\<forall>n<MAX_RETRIES. db n = StorageError"
  shows "retry db b [0..<MAX_RETRIES] (1/2) =
     (Exhausted, [WriteAttempt b, Sleep (1/2), WriteAttempt b, Sleep 1, WriteAttempt b, Sleep 2,
                  WriteAttempt b, Sleep 4, WriteAttempt b])"
proof -
  have u: "[0..<MAX_RETRIES] = [0, 1, 2, 3, 4]"
    by (simp add: MAX_RETRIES_def upt_rec)
  have "db 0 = StorageError" "db 1 = StorageError" "db 2 = StorageError"
       "db 3 = StorageError" "db 4 = StorageError"
    using assms by (simp_all add: MAX_RETRIES_def)
  then show ?thesis
    unfolding u by (simp add: MAX_RETRIES_def)
qed

text \<open>
  C2. When every one of the five write attempts of a flush raises a storage
  error that the loop catches, \<open>flush\<close> returns, \<open>flush_failures\<close> has grown
  by one, the batch is gone from the buffer, and the attempts are separated by
  sleeps of 0.5, 1, 2 and 4 seconds, with no sleep after the last attempt.
\<close>

theorem flush_retries_exhausted:
  assumes "enabled c" and "items (buffer c) \<noteq> []" and "0 < batch_size c"
    and "\<forall>n<MAX_RETRIES. attempt w n = StorageError"
  shows "MAX_RETRIES = 5 \<and>
     flush w c =
       (c\<lparr>buffer := (buffer c)\<lparr>items := drop (nat (batch_size c)) (items (buffer c))\<rparr>,
          flush_failures := flush_failures c + 1\<rparr>,
        [WriteAttempt (take (nat (batch_size c)) (items (buffer c))), Sleep (1/2),
         WriteAttempt (take (nat (batch_size c)) (items (buffer c))), Sleep 1,
         WriteAttempt (take (nat (batch_size c)) (items (buffer c))), Sleep 2,
         WriteAttempt (take (nat (batch_size c)) (items (buffer c))), Sleep 4,
         WriteAttempt (take (nat (batch_size c)) (items (buffer c)))],
        Returned)"
proof -
  have ne: "take (nat (batch_size c)) (items (buffer c)) \<noteq> []"
    using assms(2,3) by (cases "items (buffer c)") (auto simp: take_Cons')
  have "flush w c =
       (c\<lparr>buffer := (buffer c)\<lparr>items := drop (nat (batch_size c)) (items (buffer c))\<rparr>,
          flush_failures := flush_failures c + 1\<rparr>,
        [WriteAttempt (take (nat (batch_size c)) (items (buffer c))), Sleep (1/2),
         WriteAttempt (take (nat (batch_size c)) (items (buffer c))), Sleep 1,
         WriteAttempt (take (nat (batch_size c)) (items (buffer c))), Sleep 2,
         WriteAttempt (take (nat (batch_size c)) (items (buffer c))), Sleep 4,
         WriteAttempt (take (nat (batch_size c)) (items (buffer c)))],
        Returned)"
    using assms(1,2) ne
    by (simp add: flush_def Let_def pop_batch_start retry_all_fail [OF assms(4)])
  then show ?thesis by (simp add: MAX_RETRIES_def)
qed

text \<open>C2 at a full buffer and the default batch size 50.\<close>

theorem flush_retries_exhausted_witness:
  "enabled full_client \<and> items (buffer full_client) \<noteq> [] \<and> 0 < batch_size full_client
   \<and> attempt failing_world 0 = StorageError \<and> attempt failing_world 4 = StorageError
   \<and> fst (snd (flush failing_world full_client)) =
        [WriteAttempt (replicate 50 (make_event demo_inference)), Sleep (1/2),
         WriteAttempt (replicate 50 (make_event demo_inference)), Sleep 1,
         WriteAttempt (replicate 50 (make_event demo_inference)), Sleep 2,
         WriteAttempt (replicate 50 (make_event demo_inference)), Sleep 4,
         WriteAttempt (replicate 50 (make_event demo_inference))]
   \<and> snd (snd (flush failing_world full_client)) = Returned
   \<and> flush_failures (fst (flush failing_world full_client)) = 1
   \<and> items (buffer (fst (flush failing_world full_client)))
        = replicate 4950 (make_event demo_inference)"
proof -
  have e: "enabled full_client" by (simp add: full_client_def demo_client_eq)
  have n: "items (buffer full_client) \<noteq> []" by (simp add: full_client_def)
  have b: "batch_size full_client = 50" by (simp add: full_client_def demo_client_eq)
  then have b': "0 < batch_size full_client" by simp
  have f: "\<forall>n<MAX_RETRIES. attempt failing_world n = StorageError"
    by (simp add: failing_world_def)
  have i: "items (buffer full_client) = replicate 5000 (make_event demo_inference)"
    by (simp add: full_client_def)
  have ff: "flush_failures full_client = 0" by (simp add: full_client_def demo_client_eq)
  have f': "attempt failing_world 0 = StorageError" "attempt failing_world 4 = StorageError"
    by (simp_all add: failing_world_def)
  from flush_retries_exhausted [OF e n b' f]
  show ?thesis using e n b' f' by (simp add: b i ff)
qed

lemma retry_trace:
  "set (snd (retry db b as wait)) \<subseteq> {WriteAttempt b} \<union> range Sleep"
proof (induction as arbitrary: wait)
  case Nil
  show ?case by simp
next
  case (Cons a as)
  show ?case
    using Cons.IH [of "wait * 2"] Cons.IH [of wait]
    by (cases "db a") (auto simp: case_prod_beta)
qed

lemma flush_trace:
  "set (fst (snd (flush w c)))
     \<subseteq> {WriteAttempt (take (nat (batch_size c)) (items (buffer c)))} \<union> range Sleep"
proof (cases "\<not> enabled c \<or> items (buffer c) = [] \<or> take (nat (batch_size c)) (items (buffer c)) = []")
  case True
  then show ?thesis
    by (auto simp: flush_def Let_def pop_batch_start)
next
  case False
  let ?b = "take (nat (batch_size c)) (items (buffer c))"
  let ?r = "retry (attempt w) ?b [0..<MAX_RETRIES] (1/2)"
  have "fst (snd (flush w c)) = snd ?r"
    using False
    by (cases ?r; cases "fst ?r") (simp_all add: flush_def Let_def pop_batch_start)
  then show ?thesis using retry_trace [of "attempt w" ?b] by simp
qed

lemma flush_empty_batch:
  "take (nat (batch_size c)) (items (buffer c)) = [] \<Longrightarrow> fst (snd (flush w c)) = []"
  by (auto simp: flush_def Let_def pop_batch_start)

lemma flush_empty_buffer:
  "items (buffer c) = [] \<Longrightarrow> flush w c = (c, [], Returned)"
  by (simp add: flush_def)

lemma flush_disabled:
  "\<not> enabled c \<Longrightarrow> flush w c = (c, [], Returned)"
  by (simp add: flush_def)

lemma enqueue_config:
  "last_flush_time (enqueue ev c) = last_flush_time c"
  "flush_seconds (enqueue ev c) = flush_seconds c"
  by (simp_all add: enqueue_def deque_append_def Let_def)

lemma log_inference_trace:
  "fst (snd (log_inference w a c)) =
     (if enabled c \<and> flush_due w (enqueue (make_event a) c)
      then CallFlush # fst (snd (flush w (enqueue (make_event a) c)))
      else [])"
  by (simp add: log_inference_def Let_def case_prod_beta)

subsection \<open>One call of \<open>log_inference\<close>\<close>

lemma flush_items:
  assumes "enabled c" and "items (buffer c) \<noteq> []"
  shows "items (buffer (fst (flush w c))) = drop (nat (batch_size c)) (items (buffer c))"
  using assms
  by (simp add: flush_def Let_def pop_batch_start split: prod.splits loop_exit.splits)

lemma enqueue_spec:
  assumes "maxlen (buffer c) = MAX_BUFFER"
  shows "items (buffer (enqueue ev c)) = spec_enqueue (items (buffer c)) MAX_BUFFER ev"
  using assms by (simp add: enqueue_items spec_enqueue_def)

lemma flush_due_enqueue:
  assumes "maxlen (buffer c) = MAX_BUFFER"
  shows "flush_due w (enqueue ev c) \<longleftrightarrow>
           batch_size c \<le> int (length (spec_enqueue (items (buffer c)) MAX_BUFFER ev))
           \<or> real_of_int (flush_seconds c) \<le> clock_check w - last_flush_time c"
  by (simp add: flush_due_def enqueue_spec [OF assms] enqueue_keeps enqueue_config)

lemma log_inference_items:
  assumes "enabled c" and "maxlen (buffer c) = MAX_BUFFER"
  shows "items (buffer (fst (log_inference w a c))) =
           (if batch_size c \<le> int (length (spec_enqueue (items (buffer c)) MAX_BUFFER (make_event a)))
               \<or> real_of_int (flush_seconds c) \<le> clock_check w - last_flush_time c
            then drop (nat (batch_size c)) (spec_enqueue (items (buffer c)) MAX_BUFFER (make_event a))
            else spec_enqueue (items (buffer c)) MAX_BUFFER (make_event a))"
proof -
  let ?c1 = "enqueue (make_event a) c"
  have q: "items (buffer ?c1) = spec_enqueue (items (buffer c)) MAX_BUFFER (make_event a)"
    using assms(2) by (rule enqueue_spec)
  then have ne: "items (buffer ?c1) \<noteq> []" by (simp add: spec_enqueue_def)
  have en: "enabled ?c1" using assms(1) by (simp add: enqueue_keeps)
  have fl: "items (buffer (fst (flush w ?c1))) = drop (nat (batch_size c)) (items (buffer ?c1))"
    using flush_items [OF en ne, of w] by (simp add: enqueue_keeps)
  show ?thesis
    using assms(1) fl q by (simp add: fst_log_inference flush_due_enqueue [OF assms(2)])
qed

lemma log_inference_dropped:
  assumes "enabled c"
  shows "dropped_events (fst (log_inference w a c)) =
           dropped_events c + (if length (items (buffer c)) = MAX_BUFFER then 1 else 0)"
  using assms by (simp add: fst_log_inference flush_keeps enqueue_dropped)

lemma log_inference_writes:
  assumes "maxlen (buffer c) = MAX_BUFFER"
    and "WriteAttempt b \<in> set (fst (snd (log_inference w a c)))"
  shows "b = take (nat (batch_size c)) (spec_enqueue (items (buffer c)) MAX_BUFFER (make_event a))"
proof -
  let ?c1 = "enqueue (make_event a) c"
  from assms(2) have "WriteAttempt b \<in> set (fst (snd (flush w ?c1)))"
    by (simp add: log_inference_trace split: if_splits)
  with flush_trace [of w ?c1]
  have "b = take (nat (batch_size ?c1)) (items (buffer ?c1))" by auto
  then show ?thesis by (simp add: enqueue_keeps enqueue_spec [OF assms(1)])
qed

lemma spec_enqueue_length:
  "length xs \<le> n \<Longrightarrow> 0 < n \<Longrightarrow> length (spec_enqueue xs n x) \<le> n"
  by (auto simp: spec_enqueue_def)

text \<open>
  C1. A client whose buffer has the capacity \<open>MAX_BUFFER\<close> and holds at most
  that many events keeps both through every sequence of \<open>log_inference\<close> calls:
  the buffer never holds more than 5000 events, and what it holds is a suffix of
  the events it held followed by the events enqueued since, in their order. One
  call of \<open>log_inference\<close> on an enabled client leaves in the buffer exactly
  the old events without the oldest one when there were 5000 of them, followed
  by the new event, less the batch taken from the front when a flush is due; it
  adds one to \<open>dropped_events\<close> exactly when there were 5000 events. The
  buffering step alone removes the oldest of 5000 events, counts the drop and
  appends.
\<close>

theorem buffer_bounded_drop_oldest:
  assumes "enabled c" and "maxlen (buffer c) = MAX_BUFFER"
    and "length (items (buffer c)) \<le> MAX_BUFFER"
  shows "length (items (buffer (fst (log_all calls c)))) \<le> 5000
       \<and> suffix (items (buffer (fst (log_all calls c))))
                 (items (buffer c) @ map (\<lambda>(w, a). make_event a) calls)
       \<and> items (buffer (fst (log_inference w a c))) =
           (if batch_size c \<le> int (length (spec_enqueue (items (buffer c)) 5000 (make_event a)))
               \<or> real_of_int (flush_seconds c) \<le> clock_check w - last_flush_time c
            then drop (nat (batch_size c)) (spec_enqueue (items (buffer c)) 5000 (make_event a))
            else spec_enqueue (items (buffer c)) 5000 (make_event a))
       \<and> dropped_events (fst (log_inference w a c)) =
           dropped_events c + (if length (items (buffer c)) = 5000 then 1 else 0)
       \<and> length (spec_enqueue (items (buffer c)) 5000 (make_event a)) \<le> 5000
       \<and> length (items (buffer (enqueue ev c))) \<le> 5000
       \<and> (length (items (buffer c)) = 5000 \<longrightarrow>
            items (buffer (enqueue ev c)) = tl (items (buffer c)) @ [ev]
            \<and> dropped_events (enqueue ev c) = dropped_events c + 1)
       \<and> (length (items (buffer c)) < 5000 \<longrightarrow>
            items (buffer (enqueue ev c)) = items (buffer c) @ [ev]
            \<and> dropped_events (enqueue ev c) = dropped_events c)"
proof -
  have cap: "MAX_BUFFER = 5000" by (simp add: MAX_BUFFER_def)
  have "length (items (buffer (fst (log_all calls c)))) \<le> MAX_BUFFER
       \<and> suffix (items (buffer (fst (log_all calls c))))
                 (items (buffer c) @ map (\<lambda>(w, a). make_event a) calls)"
    using assms by (rule log_all_invariant)
  moreover have "items (buffer (fst (log_inference w a c))) =
           (if batch_size c \<le> int (length (spec_enqueue (items (buffer c)) MAX_BUFFER (make_event a)))
               \<or> real_of_int (flush_seconds c) \<le> clock_check w - last_flush_time c
            then drop (nat (batch_size c)) (spec_enqueue (items (buffer c)) MAX_BUFFER (make_event a))
            else spec_enqueue (items (buffer c)) MAX_BUFFER (make_event a))"
    using assms(1,2) by (rule log_inference_items)
  moreover have "dropped_events (fst (log_inference w a c)) =
           dropped_events c + (if length (items (buffer c)) = MAX_BUFFER then 1 else 0)"
    using assms(1) by (rule log_inference_dropped)
  moreover have "length (spec_enqueue (items (buffer c)) MAX_BUFFER (make_event a)) \<le> MAX_BUFFER"
    using assms(3) by (rule spec_enqueue_length) (simp add: MAX_BUFFER_def)
  moreover have "length (items (buffer (enqueue ev c))) \<le> MAX_BUFFER"
    using assms(2,3) by (rule enqueue_length)
  moreover have "length (items (buffer c)) = MAX_BUFFER \<longrightarrow>
            items (buffer (enqueue ev c)) = tl (items (buffer c)) @ [ev]
            \<and> dropped_events (enqueue ev c) = dropped_events c + 1"
    using assms(2) by (simp add: enqueue_items enqueue_dropped)
  moreover have "length (items (buffer c)) < MAX_BUFFER \<longrightarrow>
            items (buffer (enqueue ev c)) = items (buffer c) @ [ev]
            \<and> dropped_events (enqueue ev c) = dropped_events c"
    using assms(2) by (simp add: enqueue_items enqueue_dropped)
  ultimately show ?thesis unfolding cap by (intro conjI) (elim conjE, assumption)+
qed

text \<open>
  C1 at a client whose buffer holds 5000 events: the call drops the oldest
  event, counts it, appends the new event and hands the first 50 to the flush.
\<close>

theorem buffer_bounded_drop_oldest_witness:
  "enabled full_client \<and> maxlen (buffer full_client) = MAX_BUFFER
   \<and> length (items (buffer full_client)) \<le> MAX_BUFFER
   \<and> length (items (buffer full_client)) = 5000
   \<and> length (items (buffer (fst (log_all [(failing_world, demo_nested)] full_client)))) \<le> 5000
   \<and> items (buffer (fst (log_inference failing_world demo_nested full_client)))
       = drop 50 (tl (items (buffer full_client)) @ [make_event demo_nested])
   \<and> dropped_events (fst (log_inference failing_world demo_nested full_client)) = 1
   \<and> items (buffer (enqueue (make_event demo_nested) full_client))
       = tl (items (buffer full_client)) @ [make_event demo_nested]
   \<and> dropped_events (enqueue (make_event demo_nested) full_client) = 1"
proof -
  have e: "enabled full_client" by (simp add: full_client_def demo_client_eq)
  have m: "maxlen (buffer full_client) = MAX_BUFFER" by (simp add: full_client_def)
  have l: "length (items (buffer full_client)) = 5000" by (simp add: full_client_def)
  then have l': "length (items (buffer full_client)) \<le> MAX_BUFFER" by (simp add: MAX_BUFFER_def)
  have d: "dropped_events full_client = 0" by (simp add: full_client_def demo_client_eq)
  have b: "batch_size full_client = 50" by (simp add: full_client_def demo_client_eq)
  note t = buffer_bounded_drop_oldest [OF e m l', of "[(failing_world, demo_nested)]"
      failing_world demo_nested "make_event demo_nested"]
  have q: "spec_enqueue (items (buffer full_client)) 5000 (make_event demo_nested)
             = tl (items (buffer full_client)) @ [make_event demo_nested]"
    using l by (simp add: spec_enqueue_def)
  have lq: "length (tl (items (buffer full_client)) @ [make_event demo_nested]) = 5000"
    using l by simp
  from t have "items (buffer (fst (log_inference failing_world demo_nested full_client)))
       = drop 50 (tl (items (buffer full_client)) @ [make_event demo_nested])"
    unfolding q b lq by simp
  moreover from t have "dropped_events (fst (log_inference failing_world demo_nested full_client)) = 1"
    using l d by simp
  moreover from t have "length (items (buffer (fst (log_all [(failing_world, demo_nested)] full_client)))) \<le> 5000"
    by (elim conjE)
  moreover from t l have "items (buffer (enqueue (make_event demo_nested) full_client))
       = tl (items (buffer full_client)) @ [make_event demo_nested]
       \<and> dropped_events (enqueue (make_event demo_nested) full_client) = dropped_events full_client + 1"
    by (elim conjE) simp
  ultimately show ?thesis using e m l l' d by simp
qed

subsection \<open>When a flush is due and what stamps the time\<close>

lemma retry_succeeded:
  "fst (retry db b as wait) = Succeeded \<longleftrightarrow>
     (\<exists>i<length as. db (as ! i) = Committed \<and> (\<forall>j<i. db (as ! j) = StorageError))"
proof (induction as arbitrary: wait)
  case Nil
  show ?case by simp
next
  case (Cons a as)
  show ?case
    by (cases "db a")
       (simp_all add: case_prod_beta Ex_less_Suc2 All_less_Suc2 Cons.IH)
qed

lemma retry_range:
  "fst (retry db b [0..<n] wait) = Succeeded \<longleftrightarrow>
     (\<exists>i<n. db i = Committed \<and> (\<forall>j<i. db j = StorageError))"
  by (auto simp: retry_succeeded)

lemma flush_stamp:
  "last_flush_time (fst (flush w c)) =
     (if enabled c \<and> items (buffer c) \<noteq> [] \<and> 0 < batch_size c
         \<and> (\<exists>n<MAX_RETRIES. attempt w n = Committed \<and> (\<forall>m<n. attempt w m = StorageError))
      then clock_commit w
      else last_flush_time c)"
proof (cases "enabled c \<and> items (buffer c) \<noteq> [] \<and> 0 < batch_size c")
  case False
  then show ?thesis
    by (auto simp: flush_def Let_def pop_batch_start)
next
  case True
  let ?b = "take (nat (batch_size c)) (items (buffer c))"
  let ?r = "retry (attempt w) ?b [0..<MAX_RETRIES] (1/2)"
  from True have ne: "?b \<noteq> []" by (cases "items (buffer c)") (auto simp: take_Cons')
  have "last_flush_time (fst (flush w c)) =
          (if fst ?r = Succeeded then clock_commit w else last_flush_time c)"
    using True ne
    by (cases ?r; cases "fst ?r") (simp_all add: flush_def Let_def pop_batch_start)
  then show ?thesis using True by (simp add: retry_range)
qed

lemma init_stamp: "last_flush_time (init p env t) = t"
  by (simp add: init_def Let_def)

lemma log_inference_stamp:
  assumes "enabled c" and "maxlen (buffer c) = MAX_BUFFER"
  shows "last_flush_time (fst (log_inference w a c)) =
     (if (batch_size c \<le> int (length (spec_enqueue (items (buffer c)) MAX_BUFFER (make_event a)))
          \<or> real_of_int (flush_seconds c) \<le> clock_check w - last_flush_time c)
         \<and> 0 < batch_size c
         \<and> (\<exists>n<MAX_RETRIES. attempt w n = Committed \<and> (\<forall>m<n. attempt w m = StorageError))
      then clock_commit w
      else last_flush_time c)"
proof -
  let ?c1 = "enqueue (make_event a) c"
  let ?due = "batch_size c \<le> int (length (spec_enqueue (items (buffer c)) MAX_BUFFER (make_event a)))
          \<or> real_of_int (flush_seconds c) \<le> clock_check w - last_flush_time c"
  let ?ok = "\<exists>n<MAX_RETRIES. attempt w n = Committed \<and> (\<forall>m<n. attempt w m = StorageError)"
  have ne: "items (buffer ?c1) \<noteq> []"
    by (simp add: enqueue_spec [OF assms(2)] spec_enqueue_def)
  have en: "enabled ?c1" using assms(1) by (simp add: enqueue_keeps)
  have bs: "batch_size ?c1 = batch_size c" and lf: "last_flush_time ?c1 = last_flush_time c"
    by (simp_all add: enqueue_keeps enqueue_config)
  have f: "last_flush_time (fst (flush w ?c1)) =
             (if 0 < batch_size c \<and> ?ok then clock_commit w else last_flush_time c)"
    unfolding flush_stamp [of w ?c1] bs lf using en ne by auto
  have d: "flush_due w ?c1 \<longleftrightarrow> ?due" using assms(2) by (rule flush_due_enqueue)
  show ?thesis
  proof (cases ?due)
    case True
    then have "fst (log_inference w a c) = fst (flush w ?c1)"
      using assms(1) d by (simp add: fst_log_inference)
    with f True show ?thesis by auto
  next
    case False
    then have "fst (log_inference w a c) = ?c1"
      using assms(1) d by (simp add: fst_log_inference)
    with lf False show ?thesis by auto
  qed
qed

text \<open>
  C3. On an enabled client \<open>log_inference\<close> calls \<open>flush\<close> exactly when, after
  the enqueue, the buffer holds at least \<open>batch_size\<close> events or the clock is at
  least \<open>flush_seconds\<close> past \<open>last_flush_time\<close>. That field is the time of
  construction until a flush commits a batch, and a flush sets it to the time
  of its commit exactly when one of its attempts commits after none or only
  caught failures; every other flush and the enqueue leave it as it is. A flush
  of an empty buffer changes nothing and attempts no write, and no flush ever
  attempts to write an empty batch.
\<close>

theorem flush_trigger:
  assumes "enabled c"
  shows "(CallFlush \<in> set (fst (snd (log_inference w a c))) \<longleftrightarrow>
            batch_size c \<le> int (length (items (buffer (enqueue (make_event a) c))))
            \<or> real_of_int (flush_seconds c) \<le> clock_check w - last_flush_time c)
       \<and> (items (buffer c') = [] \<longrightarrow> flush w' c' = (c', [], Returned))
       \<and> (\<forall>b. WriteAttempt b \<in> set (fst (snd (flush w' c'))) \<longrightarrow>
               b \<noteq> [] \<and> items (buffer c') \<noteq> [])
       \<and> last_flush_time (init p env t) = t
       \<and> last_flush_time (fst (flush w' c')) =
           (if enabled c' \<and> items (buffer c') \<noteq> [] \<and> 0 < batch_size c'
               \<and> (\<exists>n<MAX_RETRIES. attempt w' n = Committed
                      \<and> (\<forall>m<n. attempt w' m = StorageError))
            then clock_commit w'
            else last_flush_time c')
       \<and> (maxlen (buffer c) = MAX_BUFFER \<longrightarrow>
           last_flush_time (fst (log_inference w a c)) =
             (if (batch_size c \<le> int (length (items (buffer (enqueue (make_event a) c))))
                  \<or> real_of_int (flush_seconds c) \<le> clock_check w - last_flush_time c)
                 \<and> 0 < batch_size c
                 \<and> (\<exists>n<MAX_RETRIES. attempt w n = Committed
                        \<and> (\<forall>m<n. attempt w m = StorageError))
              then clock_commit w
              else last_flush_time c))"
proof -
  have "CallFlush \<in> set (fst (snd (log_inference w a c))) \<longleftrightarrow>
          flush_due w (enqueue (make_event a) c)"
    using assms by (simp add: log_inference_trace)
  then have first: "CallFlush \<in> set (fst (snd (log_inference w a c))) \<longleftrightarrow>
            batch_size c \<le> int (length (items (buffer (enqueue (make_event a) c))))
            \<or> real_of_int (flush_seconds c) \<le> clock_check w - last_flush_time c"
    by (simp add: flush_due_def enqueue_keeps enqueue_config)
  have second: "items (buffer c') = [] \<longrightarrow> flush w' c' = (c', [], Returned)"
    by (simp add: flush_empty_buffer)
  have third: "\<forall>b. WriteAttempt b \<in> set (fst (snd (flush w' c'))) \<longrightarrow>
               b \<noteq> [] \<and> items (buffer c') \<noteq> []"
  proof (intro allI impI)
    fix b
    assume wr: "WriteAttempt b \<in> set (fst (snd (flush w' c')))"
    then have ne: "items (buffer c') \<noteq> []"
      by (auto simp: flush_empty_buffer)
    from wr flush_trace [of w' c']
    have b: "b = take (nat (batch_size c')) (items (buffer c'))" by auto
    have "b \<noteq> []"
    proof
      assume "b = []"
      with b have "fst (snd (flush w' c')) = []"
        by (simp only: flush_empty_batch)
      with wr show False by simp
    qed
    with ne show "b \<noteq> [] \<and> items (buffer c') \<noteq> []" by simp
  qed
  have fourth: "last_flush_time (init p env t) = t" by (rule init_stamp)
  have fifth: "last_flush_time (fst (flush w' c')) =
           (if enabled c' \<and> items (buffer c') \<noteq> [] \<and> 0 < batch_size c'
               \<and> (\<exists>n<MAX_RETRIES. attempt w' n = Committed
                      \<and> (\<forall>m<n. attempt w' m = StorageError))
            then clock_commit w'
            else last_flush_time c')"
    by (rule flush_stamp)
  have sixth: "maxlen (buffer c) = MAX_BUFFER \<longrightarrow>
           last_flush_time (fst (log_inference w a c)) =
             (if (batch_size c \<le> int (length (items (buffer (enqueue (make_event a) c))))
                  \<or> real_of_int (flush_seconds c) \<le> clock_check w - last_flush_time c)
                 \<and> 0 < batch_size c
                 \<and> (\<exists>n<MAX_RETRIES. attempt w n = Committed
                        \<and> (\<forall>m<n. attempt w m = StorageError))
              then clock_commit w
              else last_flush_time c)"
  proof
    assume m: "maxlen (buffer c) = MAX_BUFFER"
    show "last_flush_time (fst (log_inference w a c)) =
             (if (batch_size c \<le> int (length (items (buffer (enqueue (make_event a) c))))
                  \<or> real_of_int (flush_seconds c) \<le> clock_check w - last_flush_time c)
                 \<and> 0 < batch_size c
                 \<and> (\<exists>n<MAX_RETRIES. attempt w n = Committed
                        \<and> (\<forall>m<n. attempt w m = StorageError))
              then clock_commit w
              else last_flush_time c)"
      unfolding enqueue_spec [OF m] using assms m by (rule log_inference_stamp)
  qed
  from first second third fourth fifth sixth show ?thesis by (intro conjI)
qed

text \<open>
  C3 at a fresh client, one second and seven seconds after construction: the
  late call flushes, commits and stamps the time of the commit.
\<close>

theorem flush_trigger_witness:
  "enabled demo_client
   \<and> maxlen (buffer demo_client) = MAX_BUFFER
   \<and> last_flush_time demo_client = 0
   \<and> CallFlush \<notin> set (fst (snd (log_inference idle_world demo_inference demo_client)))
   \<and> last_flush_time (fst (log_inference idle_world demo_inference demo_client)) = 0
   \<and> CallFlush \<in> set (fst (snd (log_inference late_world demo_inference demo_client)))
   \<and> last_flush_time (fst (log_inference late_world demo_inference demo_client)) = 8
   \<and> flush late_world demo_client = (demo_client, [], Returned)"
proof -
  have e: "enabled demo_client" by (simp add: demo_client_eq)
  have i: "items (buffer demo_client) = []" by (simp add: demo_client_eq)
  have m: "maxlen (buffer demo_client) = MAX_BUFFER" by (simp add: demo_client_eq)
  have l: "length (items (buffer (enqueue (make_event demo_inference) demo_client))) = 1"
    using i by (simp add: enqueue_items [OF m] MAX_BUFFER_def)
  have c: "batch_size demo_client = 50" "flush_seconds demo_client = 5"
    "last_flush_time demo_client = 0"
    by (simp_all add: demo_client_eq)
  have ex: "\<exists>n<MAX_RETRIES. attempt late_world n = Committed
              \<and> (\<forall>m<n. attempt late_world m = StorageError)"
    by (rule exI [of _ 0]) (simp add: MAX_RETRIES_def late_world_def)
  have k: "clock_check idle_world = 1" "clock_check late_world = 7" "clock_commit late_world = 8"
    by (simp_all add: idle_world_def late_world_def)
  note t1 = flush_trigger [OF e, of idle_world demo_inference demo_client late_world
      "\<lambda>s. None" demo_env 0]
  note t2 = flush_trigger [OF e, of late_world demo_inference demo_client late_world
      "\<lambda>s. None" demo_env 0]
  from t1 have a1: "CallFlush \<notin> set (fst (snd (log_inference idle_world demo_inference demo_client)))"
    by (simp add: l c k)
  from t1 m have a2: "last_flush_time (fst (log_inference idle_world demo_inference demo_client)) = 0"
    by (simp add: l c k)
  from t2 have a3: "CallFlush \<in> set (fst (snd (log_inference late_world demo_inference demo_client)))"
    by (simp add: l c k)
  from t2 m ex have a4: "last_flush_time (fst (log_inference late_world demo_inference demo_client)) = 8"
    by (simp add: l c k)
  from t2 i have a5: "flush late_world demo_client = (demo_client, [], Returned)"
    by simp
  from e m c(3) a1 a2 a3 a4 a5 show ?thesis by (intro conjI)
qed


lemma init_without_dsn:
  "env ''DRIFTWATCH_DATABASE_URL'' = None \<Longrightarrow> \<not> enabled (init p env t)"
  by (simp add: init_def Let_def)

lemma log_inference_disabled:
  "\<not> enabled c \<Longrightarrow> log_inference w a c = (c, [], Returned)"
  by (simp add: log_inference_def)

lemma log_all_disabled:
  "\<not> enabled c \<Longrightarrow> log_all calls c = (c, [])"
  by (induction calls) (auto simp: log_inference_disabled)

text \<open>
  C4. Without \<open>DRIFTWATCH_DATABASE_URL\<close> in the environment the constructed
  client is disabled, and on it \<open>log_inference\<close>, \<open>flush\<close> and any sequence of
  \<open>log_inference\<close> calls return normally, leave the client as it was and do
  nothing to the outside.
\<close>

theorem missing_dsn_disables:
  assumes "env ''DRIFTWATCH_DATABASE_URL'' = None"
  shows "\<not> enabled (init p env t)
       \<and> log_inference w a (init p env t) = (init p env t, [], Returned)
       \<and> flush w (init p env t) = (init p env t, [], Returned)
       \<and> log_all calls (init p env t) = (init p env t, [])"
proof -
  have "\<not> enabled (init p env t)"
    using assms by (rule init_without_dsn)
  then show ?thesis
    by (simp add: log_inference_disabled flush_disabled log_all_disabled)
qed

text \<open>C4 at an environment that sets other variables only.\<close>

theorem missing_dsn_disables_witness:
  "unset_env ''DRIFTWATCH_DATABASE_URL'' = None
   \<and> \<not> enabled (init (\<lambda>s. None) unset_env 0)
   \<and> log_inference failing_world demo_inference (init (\<lambda>s. None) unset_env 0)
        = (init (\<lambda>s. None) unset_env 0, [], Returned)
   \<and> items (buffer (init (\<lambda>s. None) unset_env 0)) = []"
proof -
  have h: "unset_env ''DRIFTWATCH_DATABASE_URL'' = None" by (simp add: unset_env_def)
  have i: "items (buffer (init (\<lambda>s. None) unset_env 0)) = []"
    by (simp add: init_def Let_def)
  from missing_dsn_disables [where env = unset_env and p = "\<lambda>s. None" and t = 0
      and w = failing_world and a = demo_inference and calls = "[]", OF h]
  show ?thesis using h i by simp
qed

lemma sanitize_eq: "sanitize v = (if nonfinite_float v then PNone else v)"
  by (cases v) simp_all

lemma sanitize_finite: "\<not> nonfinite_float (sanitize v)"
  by (cases v) simp_all

lemma scalar_nonfinite: "is_plain v \<Longrightarrow> has_nonfinite v = nonfinite_float v"
  by (cases v) simp_all

lemma sanitize_scalar: "is_plain v \<Longrightarrow> \<not> has_nonfinite (sanitize v)"
  by (cases v) simp_all

lemma sanitize_dict_keys: "map fst (sanitize_dict d) = map fst d"
  by (simp add: sanitize_dict_def case_prod_beta)

lemma sanitize_dict_values: "snd ` set (sanitize_dict d) = sanitize ` snd ` set d"
  by (force simp: sanitize_dict_def case_prod_beta)

lemma sanitize_dict_top: "\<forall>v \<in> snd ` set (sanitize_dict d). \<not> nonfinite_float v"
  by (simp add: sanitize_dict_values sanitize_finite)

lemma sanitize_dict_flat:
  "\<forall>v \<in> snd ` set d. is_plain v \<Longrightarrow> \<not> has_nonfinite (PDict (sanitize_dict d))"
  by (simp add: sanitize_dict_values sanitize_scalar)

lemma init_buffer:
  "items (buffer (init p env t)) = []" "maxlen (buffer (init p env t)) = MAX_BUFFER"
  by (simp_all add: init_def Let_def)

lemma log_all_events:
  assumes "e \<in> set (items (buffer (fst (log_all calls (init p env t)))))"
  shows "\<exists>a. e = make_event a"
proof (cases "enabled (init p env t)")
  case False
  then have "log_all calls (init p env t) = (init p env t, [])" by (rule log_all_disabled)
  with assms show ?thesis by (simp add: init_buffer)
next
  case True
  have "suffix (items (buffer (fst (log_all calls (init p env t)))))
          (items (buffer (init p env t)) @ map (\<lambda>(w, a). make_event a) calls)"
    using log_all_invariant [OF True, of calls] by (simp add: init_buffer)
  then have "set (items (buffer (fst (log_all calls (init p env t)))))
          \<subseteq> set (map (\<lambda>(w, a). make_event a) calls)"
    using set_mono_suffix by (fastforce simp: init_buffer)
  with assms show ?thesis by auto
qed

lemma make_event_fields:
  "features_json (make_event a) = sanitize_dict (in_features_json a)"
  "segment_json (make_event a) = sanitize_dict (in_segment_json a)"
  "y_pred_num (make_event a) = sanitize (in_y_pred_num a)"
  by (simp_all add: make_event_def)

text \<open>
  C5 fails for nested values: \<open>_sanitize\<close> looks at the value it is given and
  not inside it, so a NaN inside a list is buffered as it is.
\<close>

theorem sanitize_nested_counterexample:
  "sanitize (PList [PFloat NaN]) = PList [PFloat NaN]
   \<and> items (buffer (fst (log_inference idle_world demo_nested demo_client)))
        = [make_event demo_nested]
   \<and> features_json (make_event demo_nested) = [(''window'', PList [PFloat NaN])]
   \<and> has_nonfinite (PDict (features_json (make_event demo_nested)))"
proof -
  have m: "maxlen (buffer demo_client) = MAX_BUFFER" by (simp add: demo_client_eq)
  have e: "items (buffer demo_client) = []" by (simp add: demo_client_eq)
  have i: "items (buffer (enqueue (make_event demo_nested) demo_client)) = [make_event demo_nested]"
    by (simp add: enqueue_items [OF m] e MAX_BUFFER_def)
  have c: "batch_size demo_client = 50" "flush_seconds demo_client = 5"
    "last_flush_time demo_client = 0" "enabled demo_client"
    by (simp_all add: demo_client_eq)
  have nd: "\<not> flush_due idle_world (enqueue (make_event demo_nested) demo_client)"
    by (simp add: flush_due_def i enqueue_keeps enqueue_config c idle_world_def)
  have f: "features_json (make_event demo_nested) = [(''window'', PList [PFloat NaN])]"
    by (simp add: make_event_fields demo_nested_def sanitize_dict_def)
  show ?thesis
    using i nd by (simp add: fst_log_inference c f)
qed

lemma sanitize_dict_eq:
  "sanitize_dict d = map (\<lambda>(k, x). (k, if nonfinite_float x then PNone else x)) d"
  by (simp add: sanitize_dict_def sanitize_eq)

lemma sanitize_unchanged: "is_container v \<or> (\<exists>f. v = POtherNumber f) \<Longrightarrow> sanitize v = v"
  by (cases v) auto

lemma log_inference_buffered:
  assumes "enabled c \<and> maxlen (buffer c) = MAX_BUFFER"
  shows "items (buffer (fst (log_inference w a c))) =
           (if batch_size c \<le> int (length (spec_enqueue (items (buffer c)) 5000 (make_event a)))
               \<or> real_of_int (flush_seconds c) \<le> clock_check w - last_flush_time c
            then drop (nat (batch_size c)) (spec_enqueue (items (buffer c)) 5000 (make_event a))
            else spec_enqueue (items (buffer c)) 5000 (make_event a))
         \<and> (\<forall>b. WriteAttempt b \<in> set (fst (snd (log_inference w a c))) \<longrightarrow>
               b = take (nat (batch_size c)) (spec_enqueue (items (buffer c)) 5000 (make_event a)))"
proof -
  have cap: "MAX_BUFFER = 5000" by (simp add: MAX_BUFFER_def)
  from assms have e: "enabled c" and m: "maxlen (buffer c) = MAX_BUFFER" by simp_all
  have "items (buffer (fst (log_inference w a c))) =
           (if batch_size c \<le> int (length (spec_enqueue (items (buffer c)) MAX_BUFFER (make_event a)))
               \<or> real_of_int (flush_seconds c) \<le> clock_check w - last_flush_time c
            then drop (nat (batch_size c)) (spec_enqueue (items (buffer c)) MAX_BUFFER (make_event a))
            else spec_enqueue (items (buffer c)) MAX_BUFFER (make_event a))"
    using e m by (rule log_inference_items)
  moreover have "\<forall>b. WriteAttempt b \<in> set (fst (snd (log_inference w a c))) \<longrightarrow>
       b = take (nat (batch_size c)) (spec_enqueue (items (buffer c)) MAX_BUFFER (make_event a))"
    using log_inference_writes [OF m] by blast
  ultimately show ?thesis unfolding cap by (intro conjI)
qed

text \<open>
  C5, amended. \<open>_sanitize\<close> returns its argument unchanged unless the argument
  itself is a NaN or infinite value of type \<open>float\<close>, which becomes \<open>None\<close>;
  a list, a dict and a number of another type are returned as they are, whatever
  they hold. The event's feature and segment maps are the given maps with exactly
  those values replaced, keys and order kept. One call of \<open>log_inference\<close>
  on an enabled client puts that event at the end of the buffer, and a flush it
  triggers writes a batch taken from the front of that buffer. When every value
  of the given map is \<open>None\<close>, a bool, an int, a string or a \<open>float\<close>, the
  event's map holds no non-finite number at any depth. No value of a map of an
  event in the buffer of a constructed client is itself a non-finite \<open>float\<close>.
\<close>

theorem sanitize_top_level:
  "sanitize v = (if nonfinite_float v then PNone else v)
   \<and> (is_container v \<or> (\<exists>f. v = POtherNumber f) \<longrightarrow> sanitize v = v)
   \<and> features_json (make_event a)
       = map (\<lambda>(k, x). (k, if nonfinite_float x then PNone else x)) (in_features_json a)
   \<and> segment_json (make_event a)
       = map (\<lambda>(k, x). (k, if nonfinite_float x then PNone else x)) (in_segment_json a)
   \<and> (enabled c \<and> maxlen (buffer c) = MAX_BUFFER \<longrightarrow>
        items (buffer (fst (log_inference w a c))) =
           (if batch_size c \<le> int (length (spec_enqueue (items (buffer c)) 5000 (make_event a)))
               \<or> real_of_int (flush_seconds c) \<le> clock_check w - last_flush_time c
            then drop (nat (batch_size c)) (spec_enqueue (items (buffer c)) 5000 (make_event a))
            else spec_enqueue (items (buffer c)) 5000 (make_event a))
        \<and> (\<forall>b. WriteAttempt b \<in> set (fst (snd (log_inference w a c))) \<longrightarrow>
               b = take (nat (batch_size c)) (spec_enqueue (items (buffer c)) 5000 (make_event a))))
   \<and> ((\<forall>x \<in> snd ` set (in_features_json a). is_plain x) \<longrightarrow>
         \<not> has_nonfinite (PDict (features_json (make_event a))))
   \<and> ((\<forall>x \<in> snd ` set (in_segment_json a). is_plain x) \<longrightarrow>
         \<not> has_nonfinite (PDict (segment_json (make_event a))))
   \<and> (\<forall>e \<in> set (items (buffer (fst (log_all calls (init p env t))))).
         (\<forall>x \<in> snd ` set (features_json e). \<not> nonfinite_float x)
         \<and> (\<forall>x \<in> snd ` set (segment_json e). \<not> nonfinite_float x))"
proof -
  have buffered: "\<forall>e \<in> set (items (buffer (fst (log_all calls (init p env t))))).
         (\<forall>x \<in> snd ` set (features_json e). \<not> nonfinite_float x)
         \<and> (\<forall>x \<in> snd ` set (segment_json e). \<not> nonfinite_float x)"
  proof
    fix e assume "e \<in> set (items (buffer (fst (log_all calls (init p env t)))))"
    then obtain a' where "e = make_event a'" using log_all_events by blast
    then show "(\<forall>x \<in> snd ` set (features_json e). \<not> nonfinite_float x)
         \<and> (\<forall>x \<in> snd ` set (segment_json e). \<not> nonfinite_float x)"
      using sanitize_dict_top [of "in_features_json a'"] sanitize_dict_top [of "in_segment_json a'"]
      by (simp add: make_event_fields)
  qed
  have flat1: "(\<forall>x \<in> snd ` set (in_features_json a). is_plain x) \<longrightarrow>
         \<not> has_nonfinite (PDict (features_json (make_event a)))"
    using sanitize_dict_flat [of "in_features_json a"] by (simp only: make_event_fields) blast
  have flat2: "(\<forall>x \<in> snd ` set (in_segment_json a). is_plain x) \<longrightarrow>
         \<not> has_nonfinite (PDict (segment_json (make_event a)))"
    using sanitize_dict_flat [of "in_segment_json a"] by (simp only: make_event_fields) blast
  have maps: "features_json (make_event a)
       = map (\<lambda>(k, x). (k, if nonfinite_float x then PNone else x)) (in_features_json a)"
    "segment_json (make_event a)
       = map (\<lambda>(k, x). (k, if nonfinite_float x then PNone else x)) (in_segment_json a)"
    by (simp_all only: make_event_fields sanitize_dict_eq)
  have kept: "is_container v \<or> (\<exists>f. v = POtherNumber f) \<longrightarrow> sanitize v = v"
    using sanitize_unchanged by blast
  have step: "enabled c \<and> maxlen (buffer c) = MAX_BUFFER \<longrightarrow>
        items (buffer (fst (log_inference w a c))) =
           (if batch_size c \<le> int (length (spec_enqueue (items (buffer c)) 5000 (make_event a)))
               \<or> real_of_int (flush_seconds c) \<le> clock_check w - last_flush_time c
            then drop (nat (batch_size c)) (spec_enqueue (items (buffer c)) 5000 (make_event a))
            else spec_enqueue (items (buffer c)) 5000 (make_event a))
        \<and> (\<forall>b. WriteAttempt b \<in> set (fst (snd (log_inference w a c))) \<longrightarrow>
               b = take (nat (batch_size c)) (spec_enqueue (items (buffer c)) 5000 (make_event a)))"
    by (rule impI) (rule log_inference_buffered)
  from sanitize_eq [of v] kept maps step flat1 flat2 buffered show ?thesis by (intro conjI)
qed

lemma demo_logged:
  "items (buffer (fst (log_all [(idle_world, demo_inference)] demo_client)))
     = [make_event demo_inference]"
proof -
  have m: "maxlen (buffer demo_client) = MAX_BUFFER" by (simp add: demo_client_eq)
  have e: "items (buffer demo_client) = []" by (simp add: demo_client_eq)
  have i: "items (buffer (enqueue (make_event demo_inference) demo_client))
             = [make_event demo_inference]"
    by (simp add: enqueue_items [OF m] e MAX_BUFFER_def)
  have c: "batch_size demo_client = 50" "flush_seconds demo_client = 5"
    "last_flush_time demo_client = 0" "enabled demo_client"
    by (simp_all add: demo_client_eq)
  have nd: "\<not> flush_due idle_world (enqueue (make_event demo_inference) demo_client)"
    by (simp add: flush_due_def i enqueue_keeps enqueue_config c idle_world_def)
  have "fst (log_all [(idle_world, demo_inference)] demo_client)
          = fst (log_inference idle_world demo_inference demo_client)"
    by (simp add: case_prod_beta)
  then show ?thesis using i nd by (simp add: fst_log_inference c)
qed

lemma demo_event_features:
  "features_json (make_event demo_inference)
     = [(''sigma20_pct'', PFloat (Finite 0.42)), (''nan_check'', PNone)]"
  "segment_json (make_event demo_inference) = [(''env'', PStr ''smoke_test'')]"
  "y_pred_num (make_event demo_inference) = PNone"
  by (simp_all add: make_event_fields demo_inference_def sanitize_dict_def)

lemma demo_client_facts:
  "enabled demo_client" "maxlen (buffer demo_client) = MAX_BUFFER"
  "items (buffer demo_client) = []" "batch_size demo_client = 50"
  "flush_seconds demo_client = 5" "last_flush_time demo_client = 0"
  by (simp_all add: demo_client_eq)

text \<open>
  C5, amended, at the smoke test's feature map, at a map holding a list and at
  a map holding a NaN that is not of type \<open>float\<close>.
\<close>

theorem sanitize_top_level_witness:
  "in_features_json demo_inference
        = [(''sigma20_pct'', PFloat (Finite 0.42)), (''nan_check'', PFloat NaN)]
   \<and> features_json (make_event demo_inference)
        = [(''sigma20_pct'', PFloat (Finite 0.42)), (''nan_check'', PNone)]
   \<and> \<not> has_nonfinite (PDict (features_json (make_event demo_inference)))
   \<and> \<not> has_nonfinite (PDict (segment_json (make_event demo_inference)))
   \<and> features_json (make_event demo_nested) = [(''window'', PList [PFloat NaN])]
   \<and> features_json (make_event demo_other) = [(''score'', POtherNumber NaN)]
   \<and> sanitize (PList [PFloat NaN]) = PList [PFloat NaN]
   \<and> sanitize (POtherNumber NaN) = POtherNumber NaN
   \<and> enabled demo_client \<and> maxlen (buffer demo_client) = MAX_BUFFER
   \<and> items (buffer (fst (log_inference idle_world demo_inference demo_client)))
        = [make_event demo_inference]
   \<and> items (buffer (fst (log_all [(idle_world, demo_inference)] (init (\<lambda>s. None) demo_env 0))))
        = [make_event demo_inference]"
proof -
  have h1: "\<forall>x \<in> snd ` set (in_features_json demo_inference). is_plain x"
    by (simp add: demo_inference_def)
  have h2: "\<forall>x \<in> snd ` set (in_segment_json demo_inference). is_plain x"
    by (simp add: demo_inference_def)
  have h3: "enabled demo_client \<and> maxlen (buffer demo_client) = MAX_BUFFER"
    by (simp add: demo_client_facts)
  have l: "items (buffer (fst (log_all [(idle_world, demo_inference)] (init (\<lambda>s. None) demo_env 0))))
        = [make_event demo_inference]"
    using demo_logged by (simp only: demo_client_def)
  note t = sanitize_top_level [of "PFloat NaN" demo_inference demo_client idle_world
      "[(idle_world, demo_inference)]" "\<lambda>s. None" demo_env 0]
  note t2 = sanitize_top_level [of "PList [PFloat NaN]" demo_nested demo_client idle_world
      "[]" "\<lambda>s. None" demo_env 0]
  note t3 = sanitize_top_level [of "POtherNumber NaN" demo_other demo_client idle_world
      "[]" "\<lambda>s. None" demo_env 0]
  from t h1 have nf1: "\<not> has_nonfinite (PDict (features_json (make_event demo_inference)))"
    by blast
  from t h2 have nf2: "\<not> has_nonfinite (PDict (segment_json (make_event demo_inference)))"
    by blast
  have f: "in_features_json demo_inference
        = [(''sigma20_pct'', PFloat (Finite 0.42)), (''nan_check'', PFloat NaN)]"
    by (simp add: demo_inference_def)
  from t have f1: "features_json (make_event demo_inference)
        = [(''sigma20_pct'', PFloat (Finite 0.42)), (''nan_check'', PNone)]"
    by (simp add: f)
  from t2 have f2: "features_json (make_event demo_nested) = [(''window'', PList [PFloat NaN])]"
    by (simp add: demo_nested_def)
  from t3 have f3: "features_json (make_event demo_other) = [(''score'', POtherNumber NaN)]"
    by (simp add: demo_other_def)
  from t2 have s2: "sanitize (PList [PFloat NaN]) = PList [PFloat NaN]" by simp
  from t3 have s3: "sanitize (POtherNumber NaN) = POtherNumber NaN" by simp
  from t h3 have "items (buffer (fst (log_inference idle_world demo_inference demo_client))) =
           (if batch_size demo_client
                 \<le> int (length (spec_enqueue (items (buffer demo_client)) 5000 (make_event demo_inference)))
               \<or> real_of_int (flush_seconds demo_client)
                    \<le> clock_check idle_world - last_flush_time demo_client
            then drop (nat (batch_size demo_client))
                   (spec_enqueue (items (buffer demo_client)) 5000 (make_event demo_inference))
            else spec_enqueue (items (buffer demo_client)) 5000 (make_event demo_inference))"
    by blast
  then have b: "items (buffer (fst (log_inference idle_world demo_inference demo_client)))
        = [make_event demo_inference]"
    by (simp add: demo_client_facts spec_enqueue_def idle_world_def)
  from f f1 nf1 nf2 f2 f3 s2 s3 h3 b l show ?thesis by (intro conjI) simp_all
qed

text \<open>
  C10. The event's numeric prediction is the sanitized argument: \<open>None\<close> for a
  NaN or infinite float, the argument itself otherwise, so a finite float is
  kept. One call of \<open>log_inference\<close> on an enabled client puts that event at
  the end of the buffer; it is the last event of the buffer after the call when
  no flush is due, and a flush that is due writes a batch taken from the front
  of that buffer. No event in the buffer of a constructed client ever carries a
  non-finite numeric prediction.
\<close>

theorem prediction_sanitized:
  "y_pred_num (make_event a) =
     (if nonfinite_float (in_y_pred_num a) then PNone else in_y_pred_num a)
   \<and> (in_y_pred_num a = PFloat (Finite r) \<longrightarrow> y_pred_num (make_event a) = PFloat (Finite r))
   \<and> last (spec_enqueue (items (buffer c)) 5000 (make_event a)) = make_event a
   \<and> (enabled c \<and> maxlen (buffer c) = MAX_BUFFER \<longrightarrow>
        items (buffer (fst (log_inference w a c))) =
           (if batch_size c \<le> int (length (spec_enqueue (items (buffer c)) 5000 (make_event a)))
               \<or> real_of_int (flush_seconds c) \<le> clock_check w - last_flush_time c
            then drop (nat (batch_size c)) (spec_enqueue (items (buffer c)) 5000 (make_event a))
            else spec_enqueue (items (buffer c)) 5000 (make_event a))
        \<and> (\<forall>b. WriteAttempt b \<in> set (fst (snd (log_inference w a c))) \<longrightarrow>
               b = take (nat (batch_size c)) (spec_enqueue (items (buffer c)) 5000 (make_event a))))
   \<and> (enabled c \<and> maxlen (buffer c) = MAX_BUFFER
        \<and> \<not> (batch_size c \<le> int (length (spec_enqueue (items (buffer c)) 5000 (make_event a)))
               \<or> real_of_int (flush_seconds c) \<le> clock_check w - last_flush_time c) \<longrightarrow>
        y_pred_num (last (items (buffer (fst (log_inference w a c))))) =
          (if nonfinite_float (in_y_pred_num a) then PNone else in_y_pred_num a))
   \<and> (maxlen (buffer c) = MAX_BUFFER \<longrightarrow>
        items (buffer (enqueue (make_event a) c)) \<noteq> []
        \<and> last (items (buffer (enqueue (make_event a) c))) = make_event a)
   \<and> (\<forall>e \<in> set (items (buffer (fst (log_all calls (init p env t))))).
         \<not> nonfinite_float (y_pred_num e))"
proof -
  let ?q = "spec_enqueue (items (buffer c)) 5000 (make_event a)"
  let ?due = "batch_size c \<le> int (length ?q)
               \<or> real_of_int (flush_seconds c) \<le> clock_check w - last_flush_time c"
  have first: "y_pred_num (make_event a) =
     (if nonfinite_float (in_y_pred_num a) then PNone else in_y_pred_num a)"
    by (simp only: make_event_fields sanitize_eq)
  have finite: "in_y_pred_num a = PFloat (Finite r) \<longrightarrow> y_pred_num (make_event a) = PFloat (Finite r)"
    by (simp add: make_event_fields)
  have lastq: "last ?q = make_event a" by (simp add: spec_enqueue_def)
  have step: "enabled c \<and> maxlen (buffer c) = MAX_BUFFER \<longrightarrow>
        items (buffer (fst (log_inference w a c))) =
           (if ?due then drop (nat (batch_size c)) ?q else ?q)
        \<and> (\<forall>b. WriteAttempt b \<in> set (fst (snd (log_inference w a c))) \<longrightarrow>
               b = take (nat (batch_size c)) ?q)"
    by (rule impI) (rule log_inference_buffered)
  have kept: "enabled c \<and> maxlen (buffer c) = MAX_BUFFER \<and> \<not> ?due \<longrightarrow>
        y_pred_num (last (items (buffer (fst (log_inference w a c))))) =
          (if nonfinite_float (in_y_pred_num a) then PNone else in_y_pred_num a)"
  proof
    assume h: "enabled c \<and> maxlen (buffer c) = MAX_BUFFER \<and> \<not> ?due"
    then have "items (buffer (fst (log_inference w a c))) = ?q"
      using step by simp
    then show "y_pred_num (last (items (buffer (fst (log_inference w a c))))) =
          (if nonfinite_float (in_y_pred_num a) then PNone else in_y_pred_num a)"
      by (simp only: lastq first)
  qed
  have second: "maxlen (buffer c) = MAX_BUFFER \<longrightarrow>
        items (buffer (enqueue (make_event a) c)) \<noteq> []
        \<and> last (items (buffer (enqueue (make_event a) c))) = make_event a"
    by (simp add: enqueue_items)
  have third: "\<forall>e \<in> set (items (buffer (fst (log_all calls (init p env t))))).
         \<not> nonfinite_float (y_pred_num e)"
  proof
    fix e assume "e \<in> set (items (buffer (fst (log_all calls (init p env t)))))"
    then obtain a' where "e = make_event a'" using log_all_events by blast
    then show "\<not> nonfinite_float (y_pred_num e)"
      by (simp add: make_event_fields sanitize_finite)
  qed
  from first finite lastq step kept second third show ?thesis by (intro conjI)
qed

text \<open>C10 at a NaN, a negative infinity and a finite prediction.\<close>

theorem prediction_sanitized_witness:
  "enabled demo_client \<and> maxlen (buffer demo_client) = MAX_BUFFER
   \<and> in_y_pred_num demo_inference = PFloat NaN
   \<and> y_pred_num (make_event demo_inference) = PNone
   \<and> y_pred_num (make_event demo_finite) = PFloat (Finite 0.5)
   \<and> y_pred_num (make_event (demo_inference\<lparr>in_y_pred_num := PFloat NegInf\<rparr>)) = PNone
   \<and> items (buffer (fst (log_inference idle_world demo_inference demo_client)))
        = [make_event demo_inference]
   \<and> y_pred_num (last (items (buffer (fst (log_inference idle_world demo_inference demo_client)))))
        = PNone
   \<and> y_pred_num (last (items (buffer (fst (log_inference idle_world demo_finite demo_client)))))
        = PFloat (Finite 0.5)
   \<and> last (items (buffer (enqueue (make_event demo_inference) demo_client)))
        = make_event demo_inference
   \<and> items (buffer (fst (log_all [(idle_world, demo_inference)] (init (\<lambda>s. None) demo_env 0))))
        = [make_event demo_inference]"
proof -
  have e: "enabled demo_client" and m: "maxlen (buffer demo_client) = MAX_BUFFER"
    by (simp_all add: demo_client_facts)
  have n: "in_y_pred_num demo_inference = PFloat NaN" by (simp add: demo_inference_def)
  have n2: "in_y_pred_num demo_finite = PFloat (Finite 0.5)"
    by (simp add: demo_finite_def)
  have l: "items (buffer (fst (log_all [(idle_world, demo_inference)] (init (\<lambda>s. None) demo_env 0))))
        = [make_event demo_inference]"
    using demo_logged by (simp only: demo_client_def)
  have nd: "\<And>ev. \<not> (batch_size demo_client
                 \<le> int (length (spec_enqueue (items (buffer demo_client)) 5000 ev))
               \<or> real_of_int (flush_seconds demo_client)
                    \<le> clock_check idle_world - last_flush_time demo_client)"
    by (simp add: demo_client_facts spec_enqueue_def idle_world_def)
  note t1 = prediction_sanitized [of demo_inference "1/2" demo_client idle_world
         "[(idle_world, demo_inference)]" "\<lambda>s. None" demo_env 0]
  note t2 = prediction_sanitized [of demo_finite "1/2" demo_client idle_world "[]"
         "\<lambda>s. None" demo_env 0]
  note t3 = prediction_sanitized [of "demo_inference\<lparr>in_y_pred_num := PFloat NegInf\<rparr>" "1/2"
         demo_client idle_world "[]" "\<lambda>s. None" demo_env 0]
  from t1 n have a1: "y_pred_num (make_event demo_inference) = PNone" by simp
  from t2 n2 have a2: "y_pred_num (make_event demo_finite) = PFloat (Finite 0.5)" by simp
  from t3 have a3: "y_pred_num (make_event (demo_inference\<lparr>in_y_pred_num := PFloat NegInf\<rparr>)) = PNone"
    by simp
  from t1 e m nd [of "make_event demo_inference"]
  have a4: "items (buffer (fst (log_inference idle_world demo_inference demo_client)))
        = [make_event demo_inference]"
    by (simp add: demo_client_facts(3) spec_enqueue_def)
  from t1 e m nd [of "make_event demo_inference"] n
  have a5: "y_pred_num (last (items (buffer (fst (log_inference idle_world demo_inference demo_client)))))
        = PNone"
    by simp
  from t2 e m nd [of "make_event demo_finite"] n2
  have a6: "y_pred_num (last (items (buffer (fst (log_inference idle_world demo_finite demo_client)))))
        = PFloat (Finite 0.5)"
    by simp
  from t1 m have a7: "last (items (buffer (enqueue (make_event demo_inference) demo_client)))
        = make_event demo_inference"
    by simp
  from e m n a1 a2 a3 a4 a5 a6 a7 l show ?thesis by (intro conjI)
qed

lemma log_inference_maxlen:
  "maxlen (buffer (fst (log_inference w a c))) = maxlen (buffer c)"
  by (simp add: fst_log_inference flush_maxlen enqueue_keeps)

lemma log_all_maxlen:
  "maxlen (buffer (fst (log_all calls c))) = maxlen (buffer c)"
proof (induction calls arbitrary: c)
  case Nil
  show ?case by simp
next
  case (Cons call calls)
  obtain w a where call: "call = (w, a)" by (cases call)
  have "fst (log_all (call # calls) c) = fst (log_all calls (fst (log_inference w a c)))"
    by (simp add: call case_prod_beta)
  then show ?case by (simp add: Cons.IH log_inference_maxlen)
qed

text \<open>
  C6 fails: no two configurations give buffers of different capacity.
\<close>

theorem capacity_configurable_counterexample:
  "\<not> (\<exists>p env t p' env' t'.
        maxlen (buffer (init p env t)) \<noteq> maxlen (buffer (init p' env' t')))"
  by (simp add: init_buffer)

text \<open>
  C6, amended. The capacity of the buffer is the constant 5000 whatever the
  environment holds, at construction and after every sequence of calls.
\<close>

theorem capacity_fixed:
  "MAX_BUFFER = 5000
   \<and> maxlen (buffer (init p env t)) = 5000
   \<and> maxlen (buffer (fst (log_all calls (init p env t)))) = 5000"
  by (simp add: log_all_maxlen init_buffer MAX_BUFFER_def)

section \<open>Properties of the metrics job\<close>

lemma psi_terms_same:
  "sum_list (map (\<lambda>(a, e). (a - e) * ln (a / e)) (zip ps ps)) = (0::real)"
  by (induction ps) simp_all

lemma compute_psi_empty:
  "expected = [] \<or> actual = [] \<Longrightarrow> compute_psi qcut cut_counts expected actual buckets = Inr 0"
  by (auto simp: compute_psi_def)

lemma compute_psi_value_error:
  "qcut expected buckets = Inl ValueError \<Longrightarrow>
   compute_psi qcut cut_counts expected actual buckets = Inr 0"
  by (simp add: compute_psi_def)

lemma compute_psi_no_bins:
  assumes "qcut expected buckets = Inr bins0" and "bins0 \<noteq> []"
    and "cut_counts (((map Finite bins0)[0 := NegInf])[length bins0 - 1 := PosInf]) expected = Inr ce"
    and "cut_counts (((map Finite bins0)[0 := NegInf])[length bins0 - 1 := PosInf]) actual = Inr ca"
    and "ce = [] \<or> ca = []"
  shows "compute_psi qcut cut_counts expected actual buckets = Inr 0"
  using assms by (auto simp: compute_psi_def clamp_bins_def Let_def percents_def)

lemma sort_nth_constant:
  assumes "\<forall>x \<in> set xs. x = v" and "i < length xs"
  shows "sort xs ! i = (v::real)"
proof -
  have "i < length (sort xs)" using assms(2) by simp
  then have "sort xs ! i \<in> set (sort xs)" by (rule nth_mem)
  then have "sort xs ! i \<in> set xs" by simp
  then show ?thesis using assms(1) by simp
qed

lemma quantile_constant:
  assumes "xs \<noteq> []" and "\<forall>x \<in> set xs. x = v" and "0 \<le> p" and "p \<le> 1"
  shows "quantile xs p = v"
proof -
  let ?n = "length xs"
  let ?h = "p * real (?n - 1)"
  have n: "0 < ?n" using assms(1) by simp
  have h0: "0 \<le> ?h" using assms(3) by simp
  have "?h \<le> 1 * real (?n - 1)"
    using assms(4) mult_right_mono [of p 1 "real (?n - 1)"] by simp
  then have h1: "?h \<le> real (?n - 1)" by simp
  have "\<lfloor>?h\<rfloor> \<le> int (?n - 1)" using h1 by (simp add: floor_le_iff)
  then have lo: "nat \<lfloor>?h\<rfloor> < ?n" using n by linarith
  have "\<lceil>?h\<rceil> \<le> int (?n - 1)" using h1 by (simp add: ceiling_le_iff)
  then have hi: "nat \<lceil>?h\<rceil> < ?n" using n by linarith
  have a: "sort xs ! nat \<lfloor>?h\<rfloor> = v" using assms(2) lo by (rule sort_nth_constant)
  have b: "sort xs ! nat \<lceil>?h\<rceil> = v" using assms(2) hi by (rule sort_nth_constant)
  show ?thesis unfolding quantile_def Let_def a b by simp
qed

lemma remdups_replicate_eq: "remdups (replicate n x) = (if n = 0 then [] else [x])"
  by (induction n) auto

lemma distinct_replicate_iff: "distinct (replicate n x) \<longleftrightarrow> n \<le> 1"
  by (induction n) auto

lemma quantile_edges_constant:
  assumes "xs \<noteq> []" and "\<forall>x \<in> set xs. x = v" and "2 \<le> q"
  shows "quantile_edges xs q = Inr [v]"
proof -
  have "map (\<lambda>i. quantile xs (real i / real_of_int q)) [0..<nat q + 1]
          = map (\<lambda>i. v) [0..<nat q + 1]"
  proof (rule map_cong [OF refl])
    fix i assume "i \<in> set [0..<nat q + 1]"
    then have "int i \<le> q" using assms(3) by auto
    then have "real i / real_of_int q \<le> 1" using assms(3) by simp
    moreover have "0 \<le> real i / real_of_int q" using assms(3) by simp
    ultimately show "quantile xs (real i / real_of_int q) = v"
      using assms(1,2) by (simp add: quantile_constant)
  qed
  also have "\<dots> = replicate (nat q + 1) v" by (simp add: map_replicate_const)
  finally have bins: "map (\<lambda>i. quantile xs (real i / real_of_int q)) [0..<nat q + 1]
                        = replicate (nat q + 1) v" .
  have big: "\<not> nat q + 1 \<le> 1" "nat q + 1 \<noteq> 2" using assms(3) by simp_all
  show ?thesis
    unfolding quantile_edges_def Let_def bins using big
    by (simp add: distinct_replicate_iff remdups_replicate_eq)
qed

lemma compute_psi_constant_baseline:
  assumes "expected \<noteq> []" and "\<forall>x \<in> set expected. x = v" and "2 \<le> buckets"
  shows "compute_psi quantile_edges interval_counts expected actual buckets = Inr 0"
proof -
  have q: "quantile_edges expected buckets = Inr [v]"
    using assms by (rule quantile_edges_constant)
  show ?thesis
    by (simp add: compute_psi_def q clamp_bins_def interval_counts_def percents_def)
qed

text \<open>
  C7. \<open>compute_psi\<close> returns 0.0 when the baseline sample is empty, when the
  current sample is empty, and when the quantile binning of the baseline
  degenerates: when \<open>qcut\<close> raises the \<open>ValueError\<close> that the function
  catches, and when the edges it returns leave no bin to count in. A baseline of
  one repeated value is such a case: for two or more buckets its quantile edges
  collapse to that single value, clamping leaves one edge, no bin is formed and
  the sum over no bins is 0.
\<close>

theorem compute_psi_zero_cases:
  "(expected = [] \<or> actual = [] \<or> qcut expected buckets = Inl ValueError \<longrightarrow>
      compute_psi qcut cut_counts expected actual buckets = Inr 0)
   \<and> (qcut expected buckets = Inr edges \<and> edges \<noteq> []
       \<and> cut_counts (((map Finite edges)[0 := NegInf])[length edges - 1 := PosInf]) expected = Inr ce
       \<and> cut_counts (((map Finite edges)[0 := NegInf])[length edges - 1 := PosInf]) actual = Inr ca
       \<and> (ce = [] \<or> ca = []) \<longrightarrow>
      compute_psi qcut cut_counts expected actual buckets = Inr 0)
   \<and> (expected \<noteq> [] \<and> (\<forall>x \<in> set expected. x = v) \<and> 2 \<le> buckets \<longrightarrow>
      quantile_edges expected buckets = Inr [v]
      \<and> compute_psi quantile_edges interval_counts expected actual buckets = Inr 0)"
proof (intro conjI impI)
  assume h: "expected = [] \<or> actual = [] \<or> qcut expected buckets = Inl ValueError"
  show "compute_psi qcut cut_counts expected actual buckets = Inr 0"
  proof (cases "expected = [] \<or> actual = []")
    case True
    then show ?thesis by (rule compute_psi_empty)
  next
    case False
    with h have "qcut expected buckets = Inl ValueError" by simp
    then show ?thesis by (rule compute_psi_value_error)
  qed
next
  assume "qcut expected buckets = Inr edges \<and> edges \<noteq> []
       \<and> cut_counts (((map Finite edges)[0 := NegInf])[length edges - 1 := PosInf]) expected = Inr ce
       \<and> cut_counts (((map Finite edges)[0 := NegInf])[length edges - 1 := PosInf]) actual = Inr ca
       \<and> (ce = [] \<or> ca = [])"
  then have "qcut expected buckets = Inr edges" and "edges \<noteq> []"
    and "cut_counts (((map Finite edges)[0 := NegInf])[length edges - 1 := PosInf]) expected = Inr ce"
    and "cut_counts (((map Finite edges)[0 := NegInf])[length edges - 1 := PosInf]) actual = Inr ca"
    and "ce = [] \<or> ca = []"
    by simp_all
  then show "compute_psi qcut cut_counts expected actual buckets = Inr 0"
    by (rule compute_psi_no_bins)
next
  assume h: "expected \<noteq> [] \<and> (\<forall>x \<in> set expected. x = v) \<and> 2 \<le> buckets"
  then have "expected \<noteq> []" and "\<forall>x \<in> set expected. x = v" and "2 \<le> buckets"
    by simp_all
  then show "quantile_edges expected buckets = Inr [v]"
    by (rule quantile_edges_constant)
next
  assume h: "expected \<noteq> [] \<and> (\<forall>x \<in> set expected. x = v) \<and> 2 \<le> buckets"
  then have "expected \<noteq> []" and "\<forall>x \<in> set expected. x = v" and "2 \<le> buckets"
    by simp_all
  then show "compute_psi quantile_edges interval_counts expected actual buckets = Inr 0"
    by (rule compute_psi_constant_baseline)
qed

text \<open>
  C7 at an empty baseline, an empty current sample, a binning that raises and
  the constant baseline 1, 1, 1, whose ten quantile edges collapse to one.
\<close>

theorem compute_psi_zero_cases_witness:
  "compute_psi quantile_edges interval_counts [] [1, 2, 3] 10 = Inr 0
   \<and> compute_psi quantile_edges interval_counts [1, 2, 3] [] 10 = Inr 0
   \<and> raising_qcut [1, 2, 3] 10 = Inl ValueError
   \<and> compute_psi raising_qcut interval_counts [1, 2, 3] [1, 2, 3] 10 = Inr 0
   \<and> quantile_edges [1, 1, 1] 10 = Inr [1]
   \<and> interval_counts [PosInf] [1, 1, 1] = Inr []
   \<and> compute_psi quantile_edges interval_counts [1, 1, 1] [1, 2, 3] 10 = Inr 0"
proof -
  have v: "raising_qcut [1, 2, 3] 10 = Inl ValueError" by (simp add: raising_qcut_def)
  have c: "interval_counts [PosInf] [1, 1, 1] = Inr []" by (simp add: interval_counts_def)
  have h1: "([]::real list) = [] \<or> [1, 2, 3] = ([]::real list)
            \<or> quantile_edges [] 10 = Inl ValueError" by simp
  have h2: "[1, 2, 3] = ([]::real list) \<or> ([]::real list) = []
            \<or> quantile_edges [1, 2, 3] 10 = Inl ValueError" by simp
  have h3: "[1, 2, 3] = ([]::real list) \<or> [1, 2, 3] = ([]::real list)
            \<or> raising_qcut [1, 2, 3] 10 = Inl ValueError" using v by simp
  have h4: "[1, 1, 1] \<noteq> ([]::real list) \<and> (\<forall>x \<in> set [1, 1, 1]. x = (1::real)) \<and> (2::int) \<le> 10"
    by simp
  note t1 = compute_psi_zero_cases [where expected = "[]" and actual = "[1, 2, 3]"
         and qcut = quantile_edges and buckets = 10 and cut_counts = interval_counts
         and edges = "[]" and ce = "[]" and ca = "[]" and v = 1]
  note t2 = compute_psi_zero_cases [where expected = "[1, 2, 3]" and actual = "[]"
         and qcut = quantile_edges and buckets = 10 and cut_counts = interval_counts
         and edges = "[]" and ce = "[]" and ca = "[]" and v = 1]
  note t3 = compute_psi_zero_cases [where expected = "[1, 2, 3]" and actual = "[1, 2, 3]"
         and qcut = raising_qcut and buckets = 10 and cut_counts = interval_counts
         and edges = "[]" and ce = "[]" and ca = "[]" and v = 1]
  note t4 = compute_psi_zero_cases [where expected = "[1, 1, 1]" and actual = "[1, 2, 3]"
         and qcut = quantile_edges and buckets = 10 and cut_counts = interval_counts
         and edges = "[]" and ce = "[]" and ca = "[]" and v = 1]
  from t1 [THEN conjunct1] h1
  have a1: "compute_psi quantile_edges interval_counts [] [1, 2, 3] 10 = Inr 0"
    by (rule mp)
  from t2 [THEN conjunct1] h2
  have a2: "compute_psi quantile_edges interval_counts [1, 2, 3] [] 10 = Inr 0"
    by (rule mp)
  from t3 [THEN conjunct1] h3
  have a3: "compute_psi raising_qcut interval_counts [1, 2, 3] [1, 2, 3] 10 = Inr 0"
    by (rule mp)
  from t4 [THEN conjunct2, THEN conjunct2] h4
  have a4: "quantile_edges [1, 1, 1] 10 = Inr [1]
      \<and> compute_psi quantile_edges interval_counts [1, 1, 1] [1, 2, 3] 10 = Inr 0"
    by (rule mp)
  from a1 a2 v a3 a4 c show ?thesis by (intro conjI) simp_all
qed

lemma compute_psi_self_value:
  assumes "compute_psi qcut cut_counts x x buckets = Inr r"
  shows "r = 0"
proof (cases "x = []")
  case True
  then have "compute_psi qcut cut_counts x x buckets = Inr 0" by (simp add: compute_psi_def)
  with assms show ?thesis by simp
next
  case ne: False
  show ?thesis
  proof (cases "qcut x buckets")
    case (Inl e)
    with assms ne show ?thesis by (cases e) (simp_all add: compute_psi_def)
  next
    case q: (Inr bins0)
    show ?thesis
    proof (cases "clamp_bins bins0")
      case (Inl e)
      with assms ne q show ?thesis by (simp add: compute_psi_def)
    next
      case b: (Inr bins)
      show ?thesis
      proof (cases "cut_counts bins x")
        case (Inl e)
        with assms ne q b show ?thesis by (simp add: compute_psi_def)
      next
        case (Inr cs)
        with assms ne q b show ?thesis
          by (simp add: compute_psi_def Let_def psi_terms_same)
      qed
    qed
  qed
qed

lemma compute_psi_self_returns:
  assumes "qcut x buckets = Inr bins0" and "bins0 \<noteq> []"
    and "cut_counts (((map Finite bins0)[0 := NegInf])[length bins0 - 1 := PosInf]) x = Inr cs"
  shows "compute_psi qcut cut_counts x x buckets = Inr 0"
  using assms by (simp add: compute_psi_def clamp_bins_def Let_def psi_terms_same)

text \<open>
  C8. Applied to the same sample as baseline and as current sample,
  \<open>compute_psi\<close> can return no other value than 0, and it does return 0
  whenever the binning raises the caught \<open>ValueError\<close> or gives at least one
  edge and the counting of the sample into the bins succeeds. Both samples get the
  same proportions, so every term of the sum is 0.
\<close>

theorem compute_psi_self:
  "(\<forall>r. compute_psi qcut cut_counts x x buckets = Inr r \<longrightarrow> r = 0)
   \<and> (qcut x buckets = Inl ValueError \<longrightarrow> compute_psi qcut cut_counts x x buckets = Inr 0)
   \<and> (\<forall>bins0 cs. qcut x buckets = Inr bins0 \<and> bins0 \<noteq> []
         \<and> cut_counts (((map Finite bins0)[0 := NegInf])[length bins0 - 1 := PosInf]) x = Inr cs
         \<longrightarrow> compute_psi qcut cut_counts x x buckets = Inr 0)"
proof (intro conjI allI impI)
  fix r assume "compute_psi qcut cut_counts x x buckets = Inr r"
  then show "r = 0" by (rule compute_psi_self_value)
next
  assume "qcut x buckets = Inl ValueError"
  then show "compute_psi qcut cut_counts x x buckets = Inr 0" by (rule compute_psi_value_error)
next
  fix bins0 cs
  assume "qcut x buckets = Inr bins0 \<and> bins0 \<noteq> []
         \<and> cut_counts (((map Finite bins0)[0 := NegInf])[length bins0 - 1 := PosInf]) x = Inr cs"
  then have "qcut x buckets = Inr bins0" and "bins0 \<noteq> []"
    and "cut_counts (((map Finite bins0)[0 := NegInf])[length bins0 - 1 := PosInf]) x = Inr cs"
    by simp_all
  then show "compute_psi qcut cut_counts x x buckets = Inr 0"
    by (rule compute_psi_self_returns)
qed

text \<open>C8 at the sample 1, 2, 3, 4 with its eleven quantile edges.\<close>

theorem compute_psi_self_witness:
  "quantile_edges [1, 2, 3, 4] 10
      = Inr [1, 13/10, 16/10, 19/10, 22/10, 25/10, 28/10, 31/10, 34/10, 37/10, 4]
   \<and> interval_counts [NegInf, Finite (13/10), Finite (16/10), Finite (19/10), Finite (22/10),
        Finite (25/10), Finite (28/10), Finite (31/10), Finite (34/10), Finite (37/10), PosInf]
        [1, 2, 3, 4] = Inr [1, 0, 0, 1, 0, 0, 1, 0, 0, 1]
   \<and> compute_psi quantile_edges interval_counts [1, 2, 3, 4] [1, 2, 3, 4] 10 = Inr 0"
proof -
  let ?edges = "[1, 13/10, 16/10, 19/10, 22/10, 25/10, 28/10, 31/10, 34/10, 37/10, 4 :: real]"
  have q: "quantile_edges [1, 2, 3, 4] 10 = Inr ?edges"
    by (simp add: quantile_edges_def quantile_def upt_rec)
  have c: "interval_counts [NegInf, Finite (13/10), Finite (16/10), Finite (19/10), Finite (22/10),
        Finite (25/10), Finite (28/10), Finite (31/10), Finite (34/10), Finite (37/10), PosInf]
        [1, 2, 3, 4] = Inr [1, 0, 0, 1, 0, 0, 1, 0, 0, 1]"
    by (simp add: interval_counts_def)
  have c': "interval_counts (((map Finite ?edges)[0 := NegInf])[length ?edges - 1 := PosInf])
              [1, 2, 3, 4] = Inr [1, 0, 0, 1, 0, 0, 1, 0, 0, 1]"
    using c by simp
  have n: "?edges \<noteq> []" by simp
  note t = compute_psi_self [of quantile_edges interval_counts "[1, 2, 3, 4]" 10]
  from t have "\<forall>bins0 cs. quantile_edges [1, 2, 3, 4] 10 = Inr bins0 \<and> bins0 \<noteq> []
         \<and> interval_counts (((map Finite bins0)[0 := NegInf])[length bins0 - 1 := PosInf])
               [1, 2, 3, 4] = Inr cs
         \<longrightarrow> compute_psi quantile_edges interval_counts [1, 2, 3, 4] [1, 2, 3, 4] 10 = Inr 0"
    by (elim conjE)
  then have "quantile_edges [1, 2, 3, 4] 10 = Inr ?edges \<and> ?edges \<noteq> []
         \<and> interval_counts (((map Finite ?edges)[0 := NegInf])[length ?edges - 1 := PosInf])
               [1, 2, 3, 4] = Inr [1, 0, 0, 1, 0, 0, 1, 0, 0, 1]
         \<longrightarrow> compute_psi quantile_edges interval_counts [1, 2, 3, 4] [1, 2, 3, 4] 10 = Inr 0"
    by (elim allE)
  with q n c'
  have r: "compute_psi quantile_edges interval_counts [1, 2, 3, 4] [1, 2, 3, 4] 10 = Inr 0"
    by (elim impE) (intro conjI)
  from q c r show ?thesis by (intro conjI)
qed

lemma astype_int_total:
  "\<forall>r \<in> set rows. row_y_true_num r \<noteq> None \<Longrightarrow>
   astype_int (map row_y_true_num rows)
     = Inr (map (\<lambda>r. int64_cast (the (row_y_true_num r))) rows)"
  by (auto simp: astype_int_def comp_def list_all_iff)

lemma astype_int_null:
  assumes "r \<in> set rows" and "row_y_true_num r = None"
  shows "astype_int (map row_y_true_num rows) = Inl ValueError
         \<or> astype_int (map row_y_true_num rows) = Inl TypeError"
proof -
  have "None \<in> set (map row_y_true_num rows)" using assms by force
  then show ?thesis by (simp add: astype_int_def)
qed

lemma count_both_map:
  "count_both p t (map f rows) (map g rows) = length (filter (\<lambda>r. f r = p \<and> g r = t) rows)"
  by (induction rows) (simp_all add: count_both_def)

lemma f1_from_counts_spec:
  "f1_from_counts tp fp fn =
     spec_ratio (2 * spec_ratio (real tp) (real tp + real fp) * spec_ratio (real tp) (real tp + real fn))
       (spec_ratio (real tp) (real tp + real fp) + spec_ratio (real tp) (real tp + real fn))"
proof -
  let ?p = "spec_ratio (real tp) (real tp + real fp)"
  let ?r = "spec_ratio (real tp) (real tp + real fn)"
  have p: "(if tp + fp > 0 then real tp / real (tp + fp) else 0) = ?p"
    by (simp add: spec_ratio_def)
  have r: "(if tp + fn > 0 then real tp / real (tp + fn) else 0) = ?r"
    by (simp add: spec_ratio_def)
  have p0: "0 \<le> ?p" and r0: "0 \<le> ?r"
    by (simp_all add: spec_ratio_def)
  then have pos: "?p + ?r > 0 \<longleftrightarrow> ?p + ?r \<noteq> 0" by linarith
  have "f1_from_counts tp fp fn = (if ?p + ?r > 0 then 2 * (?p * ?r) / (?p + ?r) else 0)"
    unfolding f1_from_counts_def Let_def p r ..
  also have "\<dots> = spec_ratio (2 * ?p * ?r) (?p + ?r)"
    unfolding pos by (simp add: spec_ratio_def)
  finally show ?thesis .
qed

lemma true_class_eq:
  "row_y_true_num r \<noteq> None \<Longrightarrow> true_class r = Some k \<longleftrightarrow> int64_cast (the (row_y_true_num r)) = k"
  by (auto simp: true_class_def)

lemma pred_binary_eq:
  "(case row_y_pred_num r of None \<Rightarrow> 0 | Some p \<Rightarrow> if p \<ge> 1/2 then 1 else (0::int)) = 1
     \<longleftrightarrow> predicted_positive r"
  "(case row_y_pred_num r of None \<Rightarrow> 0 | Some p \<Rightarrow> if p \<ge> 1/2 then 1 else (0::int)) = 0
     \<longleftrightarrow> \<not> predicted_positive r"
  by (simp_all add: predicted_positive_def split: option.splits)

lemma filter_cong_set:
  "(\<And>x. x \<in> set xs \<Longrightarrow> P x = Q x) \<Longrightarrow> length (filter P xs) = length (filter Q xs)"
  by (induction xs) simp_all

lemma classification_f1_spec:
  assumes "\<forall>r \<in> set rows. row_y_true_num r \<noteq> None"
  shows "classification_f1 rows = Inr (spec_f1 rows)"
proof -
  let ?pb = "\<lambda>r. case row_y_pred_num r of None \<Rightarrow> 0 | Some p \<Rightarrow> if p \<ge> 1/2 then 1 else (0::int)"
  let ?tb = "\<lambda>r. int64_cast (the (row_y_true_num r))"
  have tp: "count_both 1 1 (map ?pb rows) (map ?tb rows)
              = length (filter (\<lambda>r. predicted_positive r \<and> true_class r = Some 1) rows)"
    unfolding count_both_map
    by (rule filter_cong_set) (use assms in \<open>simp add: pred_binary_eq true_class_eq\<close>)
  have fp: "count_both 1 0 (map ?pb rows) (map ?tb rows)
              = length (filter (\<lambda>r. predicted_positive r \<and> true_class r = Some 0) rows)"
    unfolding count_both_map
    by (rule filter_cong_set) (use assms in \<open>simp add: pred_binary_eq true_class_eq\<close>)
  have fn: "count_both 0 1 (map ?pb rows) (map ?tb rows)
              = length (filter (\<lambda>r. \<not> predicted_positive r \<and> true_class r = Some 1) rows)"
    unfolding count_both_map
    by (rule filter_cong_set) (use assms in \<open>simp add: pred_binary_eq true_class_eq\<close>)
  have "classification_f1 rows =
          Inr (f1_from_counts (count_both 1 1 (map ?pb rows) (map ?tb rows))
                 (count_both 1 0 (map ?pb rows) (map ?tb rows))
                 (count_both 0 1 (map ?pb rows) (map ?tb rows)))"
    by (simp add: classification_f1_def y_pred_binary_def astype_int_total [OF assms] Let_def)
  also have "\<dots> = Inr (spec_f1 rows)"
    unfolding tp fp fn f1_from_counts_spec by (simp add: spec_f1_def Let_def)
  finally show ?thesis .
qed

lemma int64_cast_small: "int64_cast 0 = 0" "int64_cast 1 = 1"
  by (simp_all add: int64_cast_def trunc_def)

lemma example_f1: "classification_f1 example_rows = Inr 1"
  by (simp add: classification_f1_def example_rows_def y_pred_binary_def astype_int_def
      int64_cast_small count_both_def f1_from_counts_def)

lemma performance_metrics_f1:
  assumes "200 \<le> length rows" and "row_pred_type (hd rows) = ''classification''"
    and "\<forall>r \<in> set rows. row_y_true_num r \<noteq> None"
  shows "performance_metrics rows = Inr [(''f1'', Finite (spec_f1 rows))]"
proof -
  from assms(1) obtain r rest where rows: "rows = r # rest" by (cases rows) auto
  with assms(2) have pt: "row_pred_type r = ''classification''" by simp
  have f: "classification_f1 rows = Inr (spec_f1 rows)"
    using assms(3) by (rule classification_f1_spec)
  show ?thesis
    using assms(1) pt f unfolding rows by (simp add: performance_metrics_def)
qed

lemma performance_metrics_null_truth:
  assumes "200 \<le> length rows" and "row_pred_type (hd rows) = ''classification''"
    and "r \<in> set rows" and "row_y_true_num r = None"
  shows "performance_metrics rows = Inl ValueError \<or> performance_metrics rows = Inl TypeError"
proof -
  from assms(1) obtain r0 rest where rows: "rows = r0 # rest" by (cases rows) auto
  with assms(2) have pt: "row_pred_type r0 = ''classification''" by simp
  from astype_int_null [OF assms(3,4)]
  have "classification_f1 rows = Inl ValueError \<or> classification_f1 rows = Inl TypeError"
    by (auto simp: classification_f1_def Let_def)
  then show ?thesis
    using assms(1) pt unfolding rows by (auto simp: performance_metrics_def)
qed

lemma many_rows_length: "length many_rows = 200"
  by (simp add: many_rows_def example_rows_def length_concat sum_list_replicate)

lemma many_rows_f1: "performance_metrics many_rows = Inr [(''f1'', Finite 1)]"
  by (simp add: many_rows_def performance_metrics_def classification_f1_def example_rows_def
      y_pred_binary_def astype_int_def int64_cast_small count_both_def f1_from_counts_def
      numeral_eq_Suc)

text \<open>
  C9. On the predictions 0.9, 0.1, 0.6, 0.4 against the truths 1, 0, 1, 0 the
  F1 score is 1, and for 200 joined rows made of these the job appends the
  metric \<open>f1\<close> with the value 1. With one more joined row of a classification
  model whose label has no numeric truth, the cast of the truths to integers
  raises and the job appends no \<open>f1\<close>: the rows with a truth are not scored.
\<close>

theorem classification_f1_null_truth:
  "classification_f1 example_rows = Inr 1
   \<and> length many_rows = 200
   \<and> performance_metrics many_rows = Inr [(''f1'', Finite 1)]
   \<and> length null_truth_rows = 201
   \<and> row_pred_type (hd null_truth_rows) = ''classification''
   \<and> performance_metrics null_truth_rows = Inl ValueError"
proof -
  have l: "length null_truth_rows = 201"
    by (simp add: null_truth_rows_def many_rows_length)
  have h: "row_pred_type (hd null_truth_rows) = ''classification''"
    by (simp add: null_truth_rows_def)
  have m: "many_rows = example_rows @ concat (replicate 49 example_rows)"
    by (simp add: many_rows_def numeral_eq_Suc)
  have some: "Some 1 \<in> set (map row_y_true_num null_truth_rows)"
    by (simp add: null_truth_rows_def m example_rows_def)
  have none: "None \<in> set (map row_y_true_num null_truth_rows)"
    by (simp add: null_truth_rows_def)
  have "astype_int (map row_y_true_num null_truth_rows) = Inl ValueError"
    unfolding astype_int_def list_all_iff using some none by (auto simp del: set_map)
  then have "classification_f1 null_truth_rows = Inl ValueError"
    by (simp add: classification_f1_def Let_def)
  then have r: "performance_metrics null_truth_rows = Inl ValueError"
    using l by (simp add: performance_metrics_def null_truth_rows_def)
  from example_f1 many_rows_length many_rows_f1 l h r show ?thesis by (intro conjI)
qed

end
